theory Spec2Isabelle
  imports Complex_Main "HOL-Library.Sublist"
begin

section \<open>Remiro AI: the user profile store of \<open>backend/utils/UserManager.js\<close>\<close>

text \<open>
  The store keeps one directory per user under \<open>usersDir\<close>. A directory is named
  \<open>sanitizedName_userId\<close>; it holds \<open>profile.json\<close> and, once a conversation has been
  saved, a \<open>sessions\<close> directory with one JSON file per session. Every lookup by user id
  lists \<open>usersDir\<close> and takes the first directory whose name contains the id
  (\<open>userDirs.find(dir => dir.includes(userId))\<close>).

  Modelling decisions.
  \<^item> A JavaScript string is a \<open>string\<close>; a \<open>char\<close> stands for a UTF-16 code unit below
    256, so strings over Latin-1 are covered.
  \<^item> The file system is a value: a list of directories in the order \<open>fs.readdir\<close> reports
    them. That order is not fixed by Node, so an operation that creates a directory or a
    file takes the position \<open>pos\<close> at which the new entry shows up in later listings.
  \<^item> \<open>uuidv4()\<close> and \<open>new Date().toISOString()\<close> are inputs (\<open>userId\<close>, \<open>now\<close>).
  \<^item> \<open>throw\<close> is the left injection of a sum; an error value carries the \<open>name\<close> and the
    \<open>message\<close> of the JavaScript error object. Failures of the disk itself (full disk,
    permissions, over-long names) are outside the model.
  \<^item> Paths are POSIX paths. \<open>path.join\<close> resolves a session id that contains \<open>/\<close>
    away from the \<open>sessions\<close> directory; the model follows it through the user
    directories and stops where the path leaves them (a file directly in \<open>usersDir\<close> or
    above it), which is the result \<open>None\<close> of \<open>saveConversation\<close>. A session id that
    holds the character with code 0 names no file.
  \<^item> A number of a JSON value is a rational or one of \<open>Infinity\<close>, \<open>-Infinity\<close>, \<open>NaN\<close>;
    \<open>fs.writeJson\<close> stores the last three as \<open>null\<close>. The value \<open>undefined\<close> is no value
    of the model.
  \<^item> Arguments have the types their callers give them: names and ids are strings, a
    dimension value is a JSON value, a conversation turn is the object \<open>server.js\<close> builds.
\<close>

subsection \<open>Strings\<close>

definition is_alnum :: "char \<Rightarrow> bool" where
  "is_alnum c = (let n = (of_char c :: nat) in
     (97 \<le> n \<and> n \<le> 122) \<or> (65 \<le> n \<and> n \<le> 90) \<or> (48 \<le> n \<and> n \<le> 57))"

text \<open>The class \<open>\s\<close> below code unit 256: tab, line feed, vertical tab, form feed,
  carriage return, space and the no-break space. \<open>trim()\<close> strips the same characters.\<close>

definition is_space :: "char \<Rightarrow> bool" where
  "is_space c = (let n = (of_char c :: nat) in (9 \<le> n \<and> n \<le> 13) \<or> n = 32 \<or> n = 160)"

definition trim :: "string \<Rightarrow> string" where
  "trim s = rev (dropWhile is_space (rev (dropWhile is_space s)))"

text \<open>\<open>name.replace(/[^a-zA-Z0-9\s]/g, '').trim()\<close>\<close>

definition sanitize :: "string \<Rightarrow> string" where
  "sanitize name = trim (filter (\<lambda>c. is_alnum c \<or> is_space c) name)"

fun starts_with :: "string \<Rightarrow> string \<Rightarrow> bool" where
  "starts_with s [] = True"
| "starts_with [] (c # t) = False"
| "starts_with (d # s) (c # t) = (d = c \<and> starts_with s t)"

text \<open>\<open>s.includes(t)\<close>: \<open>t\<close> occurs in \<open>s\<close> as a contiguous substring.\<close>

fun str_includes :: "string \<Rightarrow> string \<Rightarrow> bool" where
  "str_includes [] t = (t = [])"
| "str_includes (d # s) t = (starts_with (d # s) t \<or> str_includes s t)"

text \<open>\<open>s.replace(pat, rep)\<close> with a string pattern: only the first occurrence is replaced.\<close>

fun replace_first :: "string \<Rightarrow> string \<Rightarrow> string \<Rightarrow> string" where
  "replace_first pat rep [] = (if pat = [] then rep else [])"
| "replace_first pat rep (c # s) =
     (if starts_with (c # s) pat then rep @ drop (length pat) (c # s)
      else c # replace_first pat rep s)"

subsection \<open>JSON values and JavaScript objects\<close>

text \<open>The values the program holds in memory: what \<open>JSON.parse\<close> returns, where a
  numeral beyond the doubles (\<open>1e400\<close>) is read as \<open>Infinity\<close>, and \<open>NaN\<close>, which
  arithmetic can produce. A finite number is a rational, as every double is one.
  \<open>undefined\<close> is written \<open>None\<close> where a field may be missing.\<close>

datatype json =
    JNull
  | JBool bool
  | JNum rat
  | JInfinity
  | JNegInfinity
  | JNaN
  | JStr string
  | JArr "json list"
  | JObj "(string \<times> json) list"

text \<open>What \<open>fs.readJson\<close> returns for a value that \<open>fs.writeJson\<close> has written:
  \<open>JSON.stringify\<close> writes \<open>null\<close> for a number that is not finite, at any depth.\<close>

primrec stored_value :: "json \<Rightarrow> json" where
  "stored_value JNull = JNull"
| "stored_value (JBool b) = JBool b"
| "stored_value (JNum n) = JNum n"
| "stored_value JInfinity = JNull"
| "stored_value JNegInfinity = JNull"
| "stored_value JNaN = JNull"
| "stored_value (JStr s) = JStr s"
| "stored_value (JArr xs) = JArr (map stored_value xs)"
| "stored_value (JObj kvs) = JObj (map (map_prod id stored_value) kvs)"

text \<open>The truth value JavaScript gives a value in \<open>if (v)\<close>.\<close>

fun truthy :: "json option \<Rightarrow> bool" where
  "truthy None = False"
| "truthy (Some JNull) = False"
| "truthy (Some (JBool b)) = b"
| "truthy (Some (JNum n)) = (n \<noteq> 0)"
| "truthy (Some JInfinity) = True"
| "truthy (Some JNegInfinity) = True"
| "truthy (Some JNaN) = False"
| "truthy (Some (JStr s)) = (s \<noteq> [])"
| "truthy (Some (JArr xs)) = True"
| "truthy (Some (JObj kvs)) = True"

text \<open>An object is the list of its own properties in insertion order. \<open>obj[k] = v\<close>
  overwrites the value of an existing property in place and appends a new one. For the
  key \<open>__proto__\<close> the assignment reaches the setter of the prototype and the own
  properties stay as they are. (JavaScript lists a new key that is an array index before
  the other keys; here every new key is listed last.)\<close>

type_synonym 'v obj = "(string \<times> 'v) list"

primrec put_property :: "string \<Rightarrow> 'v \<Rightarrow> 'v obj \<Rightarrow> 'v obj" where
  "put_property k v [] = [(k, v)]"
| "put_property k v (p # ps) = (if fst p = k then (k, v) # ps else p # put_property k v ps)"

definition assign :: "string \<Rightarrow> 'v \<Rightarrow> 'v obj \<Rightarrow> 'v obj" where
  "assign k v obj = (if k = ''__proto__'' then obj else put_property k v obj)"

subsection \<open>Errors\<close>

text \<open>\<open>JsError name message\<close>: \<open>new Error(m)\<close> has the name \<open>Error\<close>, a failed property read
  on \<open>undefined\<close> has the name \<open>TypeError\<close>.\<close>

datatype js_error = JsError string string


fun err_message :: "js_error \<Rightarrow> string" where
  "err_message (JsError n m) = m"

definition Error :: "string \<Rightarrow> js_error" where
  "Error m = JsError ''Error'' m"

definition TypeError :: "string \<Rightarrow> js_error" where
  "TypeError m = JsError ''TypeError'' m"

text \<open>\<open>try { ... } catch (error) { throw new Error(`prefix: ${error.message}`) }\<close>\<close>

fun rethrow :: "string \<Rightarrow> js_error + 'a \<Rightarrow> js_error + 'a" where
  "rethrow pre (Inl e) = Inl (Error (pre @ '': '' @ err_message e))"
| "rethrow pre (Inr x) = Inr x"



subsection \<open>The stored data\<close>

text \<open>The twelve properties of \<open>userData.profile\<close>, in the order \<open>createUser\<close> writes them.\<close>

definition dimension_keys :: "string list" where
  "dimension_keys =
    [''cognitiveAbilities'', ''personality'', ''emotionalIntelligence'', ''physicalContext'',
     ''strengthsWeaknesses'', ''skills'', ''constraints'', ''interests'', ''motivationsValues'',
     ''aspirations'', ''trackRecord'', ''learningPreferences'']"

record user_data =
  ud_id :: string
  ud_name :: string
  ud_createdAt :: string
  ud_profile :: "json obj"
  ud_sessions :: "json list"
  ud_updatedAt :: "string option"

text \<open>A conversation turn as \<open>server.js\<close> builds it for \<open>saveConversation\<close>.\<close>

record turn =
  timestamp :: string
  userMessage :: string
  botResponse :: json

text \<open>\<open>fs.writeJson\<close> of a profile record and of a turn.\<close>

definition written_data :: "user_data \<Rightarrow> user_data" where
  "written_data p = p\<lparr>ud_profile := map (map_prod id stored_value) (ud_profile p),
                       ud_sessions := map stored_value (ud_sessions p)\<rparr>"

definition written_turn :: "turn \<Rightarrow> turn" where
  "written_turn t = t\<lparr>botResponse := stored_value (botResponse t)\<rparr>"

text \<open>A user directory: \<open>profile.json\<close>, the \<open>sessions\<close> directory (\<open>None\<close> while it does
  not exist), whose files are listed in \<open>readdir\<close> order with their contents, and the
  other files, which only a session id with \<open>..\<close> puts beside \<open>profile.json\<close>. (Among
  the other files the names \<open>profile.json\<close> and \<open>sessions\<close> are never looked up.)\<close>

record user_dir =
  profile_json :: user_data
  sessions_dir :: "(string \<times> turn list) list option"
  other_files :: "(string \<times> turn list) list"

type_synonym store = "(string \<times> user_dir) list"

definition insert_at :: "nat \<Rightarrow> 'a \<Rightarrow> 'a list \<Rightarrow> 'a list" where
  "insert_at pos x xs = take pos xs @ x # drop pos xs"

text \<open>Writing a file or directory that exists keeps its place in the listing.\<close>

primrec overwrite :: "string \<Rightarrow> 'v \<Rightarrow> (string \<times> 'v) list \<Rightarrow> (string \<times> 'v) list" where
  "overwrite k v [] = []"
| "overwrite k v (p # ps) = (if fst p = k then (k, v) # ps else p # overwrite k v ps)"

definition write_entry :: "nat \<Rightarrow> string \<Rightarrow> 'v \<Rightarrow> (string \<times> 'v) list \<Rightarrow> (string \<times> 'v) list" where
  "write_entry pos k v xs =
     (if k \<in> fst ` set xs then overwrite k v xs else insert_at pos (k, v) xs)"

text \<open>\<open>userDirs.find(dir => dir.includes(userId))\<close>\<close>

definition find_user_dir :: "store \<Rightarrow> string \<Rightarrow> (string \<times> user_dir) option" where
  "find_user_dir st userId = find (\<lambda>d. str_includes (fst d) userId) st"

subsection \<open>\<open>UserManager\<close>\<close>

definition initial_profile :: "json obj" where
  "initial_profile = map (\<lambda>k. (k, JNull)) dimension_keys"

record created_user =
  cu_userId :: string
  cu_name :: string
  cu_message :: string

definition welcome_message :: "string \<Rightarrow> string" where
  "welcome_message sanitizedName = ''Welcome '' @ sanitizedName @
     ''! I'm Remiro AI, your career counsellor. I'm here to help you discover your ideal career path through a comprehensive 12-dimensional assessment. Let's begin this journey together.''"

text \<open>\<open>createUser(name)\<close>. \<open>fs.ensureDir\<close> keeps a directory that exists; \<open>fs.writeJson\<close>
  replaces its \<open>profile.json\<close>.\<close>

definition createUser :: "store \<Rightarrow> nat \<Rightarrow> string \<Rightarrow> string \<Rightarrow> string \<Rightarrow> store \<times> created_user" where
  "createUser st pos name userId now =
    (let sanitizedName = sanitize name;
         userDir = sanitizedName @ ''_'' @ userId;
         userData = \<lparr>ud_id = userId, ud_name = sanitizedName, ud_createdAt = now,
                     ud_profile = initial_profile, ud_sessions = [], ud_updatedAt = None\<rparr>;
         dir = (case map_of st userDir of
                  None \<Rightarrow> \<lparr>profile_json = written_data userData, sessions_dir = None,
                           other_files = []\<rparr>
                | Some old \<Rightarrow> old\<lparr>profile_json := written_data userData\<rparr>)
     in (write_entry pos userDir dir st,
         \<lparr>cu_userId = userId, cu_name = sanitizedName, cu_message = welcome_message sanitizedName\<rparr>))"

definition getUserContext :: "store \<Rightarrow> string \<Rightarrow> js_error + user_data" where
  "getUserContext st userId = rethrow ''Failed to get user context''
     (case find_user_dir st userId of
        None \<Rightarrow> Inl (Error ''User not found'')
      | Some (userDir, d) \<Rightarrow> Inr (profile_json d))"

text \<open>\<open>updateUserProfile\<close> returns the object it holds in memory; the file holds what
  \<open>fs.writeJson\<close> makes of it.\<close>

definition updateUserProfile ::
  "store \<Rightarrow> string \<Rightarrow> string \<Rightarrow> json \<Rightarrow> string \<Rightarrow> js_error + store \<times> user_data" where
  "updateUserProfile st userId dimension data now = rethrow ''Failed to update user profile''
     (case find_user_dir st userId of
        None \<Rightarrow> Inl (Error ''User not found'')
      | Some (userDir, d) \<Rightarrow>
          (let profile = profile_json d;
               profile' = profile\<lparr>ud_profile := assign dimension data (ud_profile profile),
                                  ud_updatedAt := Some now\<rparr>
           in Inr (overwrite userDir (d\<lparr>profile_json := written_data profile'\<rparr>) st,
                   profile')))"

text \<open>\<open>sessionId || 'default'\<close>: a missing or empty session id gives \<open>default\<close>.\<close>

fun session_file :: "string option \<Rightarrow> string" where
  "session_file None = ''default.json''"
| "session_file (Some sid) = (if sid = [] then ''default.json'' else sid @ ''.json'')"

text \<open>\<open>path.join(sessionsDir, file)\<close>: the segments of \<open>file\<close> between the slashes are
  followed from \<open>sessions\<close>; empty segments and \<open>.\<close> stay, \<open>..\<close> goes to the parent. The
  stack holds the path from \<open>usersDir\<close>, the last component first; \<open>None\<close> when \<open>..\<close> goes
  above \<open>usersDir\<close>.\<close>

fun split_path :: "string \<Rightarrow> string list" where
  "split_path [] = [] # []"
| "split_path (c # s) =
     (if c = CHR ''/'' then [] # split_path s
      else (case split_path s of [] \<Rightarrow> [c] # [] | seg # segs \<Rightarrow> (c # seg) # segs))"

fun walk :: "string list \<Rightarrow> string list \<Rightarrow> string list option" where
  "walk stack [] = Some stack"
| "walk stack (seg # segs) =
     (if seg = [] \<or> seg = ''.'' then walk stack segs
      else if seg = ''..'' then (case stack of [] \<Rightarrow> None | last_seg # rest \<Rightarrow> walk rest segs)
      else walk (seg # stack) segs)"

text \<open>What a path from \<open>usersDir\<close> names. The directories are the user directories and their
  \<open>sessions\<close> directories; \<open>NotDir\<close> says that a component before the last is a file.\<close>

datatype node_kind = IsDir | IsFile | NoEntry | NotDir

definition entry_kind :: "user_dir \<Rightarrow> string \<Rightarrow> node_kind" where
  "entry_kind d x =
     (if x = ''profile.json'' then IsFile
      else if x = ''sessions'' \<and> sessions_dir d \<noteq> None then IsDir
      else if x \<in> fst ` set (other_files d) then IsFile
      else NoEntry)"

fun path_kind :: "store \<Rightarrow> string list \<Rightarrow> node_kind" where
  "path_kind st [] = IsDir"
| "path_kind st [d] = (if d \<in> fst ` set st then IsDir else NoEntry)"
| "path_kind st [d, x] = (case map_of st d of None \<Rightarrow> NoEntry | Some dd \<Rightarrow> entry_kind dd x)"
| "path_kind st [d, x, y] =
     (case map_of st d of
        None \<Rightarrow> NoEntry
      | Some dd \<Rightarrow>
          (case entry_kind dd x of
             IsFile \<Rightarrow> NotDir
           | NotDir \<Rightarrow> NotDir
           | NoEntry \<Rightarrow> NoEntry
           | IsDir \<Rightarrow>
               (case sessions_dir dd of
                  None \<Rightarrow> NoEntry
                | Some files \<Rightarrow> if y \<in> fst ` set files then IsFile else NoEntry)))"
| "path_kind st (d # x # y # z # rest) =
     (case path_kind st [d, x, y] of
        IsFile \<Rightarrow> NotDir
      | NotDir \<Rightarrow> NotDir
      | NoEntry \<Rightarrow> NoEntry
      | IsDir \<Rightarrow> NoEntry)"

text \<open>The content of a file as \<open>fs.readJson\<close> returns it: \<open>None\<close> for \<open>profile.json\<close>, whose
  content is an object and no array of turns.\<close>

fun read_turns :: "store \<Rightarrow> string list \<Rightarrow> turn list option" where
  "read_turns st [d, x] =
     (if x = ''profile.json'' then None
      else (case map_of st d of None \<Rightarrow> None | Some dd \<Rightarrow> map_of (other_files dd) x))"
| "read_turns st [d, x, y] =
     (case map_of st d of
        None \<Rightarrow> None
      | Some dd \<Rightarrow> (case sessions_dir dd of None \<Rightarrow> None | Some files \<Rightarrow> map_of files y))"
| "read_turns st p = None"

fun write_turns :: "store \<Rightarrow> nat \<Rightarrow> string list \<Rightarrow> turn list \<Rightarrow> store" where
  "write_turns st pos [d, x] ts =
     (case map_of st d of
        None \<Rightarrow> st
      | Some dd \<Rightarrow> overwrite d (dd\<lparr>other_files := write_entry pos x ts (other_files dd)\<rparr>) st)"
| "write_turns st pos [d, x, y] ts =
     (case map_of st d of
        None \<Rightarrow> st
      | Some dd \<Rightarrow>
          (case sessions_dir dd of
             None \<Rightarrow> st
           | Some files \<Rightarrow> overwrite d (dd\<lparr>sessions_dir := Some (write_entry pos y ts files)\<rparr>) st))"
| "write_turns st pos p ts = st"

text \<open>The messages of the file system quote the path of the file. The program prints the
  absolute path; here the path starts at \<open>usersDir\<close>.\<close>

definition quoted_path :: "string list \<Rightarrow> string" where
  "quoted_path p = [CHR 0x27] @ ''usersDir'' @ concat (map (\<lambda>seg. ''/'' @ seg) p) @ [CHR 0x27]"

text \<open>The body of \<open>saveConversation\<close> after \<open>fs.ensureDir(sessionsDir)\<close>, for the file at
  \<open>target\<close>: \<open>fs.pathExists\<close>, \<open>fs.readJson\<close>, \<open>push\<close>, \<open>fs.writeJson\<close>. A file that does not
  exist is created when its directory exists. The file receives the turns as
  \<open>fs.writeJson\<close> stores them; the call returns the array it holds in memory.\<close>

definition save_at :: "store \<Rightarrow> nat \<Rightarrow> string list \<Rightarrow> turn \<Rightarrow> store \<times> (js_error + turn list)" where
  "save_at st pos target conversation =
     (case path_kind st target of
        IsDir \<Rightarrow> (st, Inl (Error ''EISDIR: illegal operation on a directory, read''))
      | NotDir \<Rightarrow> (st, Inl (Error (''ENOTDIR: not a directory, open '' @ quoted_path target)))
      | NoEntry \<Rightarrow>
          (case path_kind st (butlast target) of
             IsDir \<Rightarrow> (write_turns st pos target [written_turn conversation], Inr [conversation])
           | IsFile \<Rightarrow> (st, Inl (Error (''ENOTDIR: not a directory, open '' @ quoted_path target)))
           | NotDir \<Rightarrow> (st, Inl (Error (''ENOTDIR: not a directory, open '' @ quoted_path target)))
           | NoEntry \<Rightarrow>
               (st, Inl (Error (''ENOENT: no such file or directory, open '' @ quoted_path target))))
      | IsFile \<Rightarrow>
          (case read_turns st target of
             None \<Rightarrow> (st, Inl (TypeError ''sessionData.push is not a function''))
           | Some ts \<Rightarrow>
               (write_turns st pos target (map written_turn (ts @ [conversation])),
                Inr (ts @ [conversation]))))"

text \<open>Node refuses a path that holds the character with code 0, in \<open>fs.access\<close> and in
  \<open>fs.writeFile\<close> alike. The message ends with the path as Node prints it; here it is the
  path from \<open>usersDir\<close>, not normalised.\<close>

definition null_bytes_message :: "string list \<Rightarrow> string" where
  "null_bytes_message p =
     ''The argument '' @ [CHR 0x27] @ ''path'' @ [CHR 0x27] @
     '' must be a string, Uint8Array, or URL without null bytes. Received '' @ quoted_path p"

text \<open>\<open>saveConversation\<close>. A failure after \<open>fs.ensureDir\<close> leaves the \<open>sessions\<close> directory
  behind, so the store is returned with the error as well. The result is \<open>None\<close> where
  the file lies directly in \<open>usersDir\<close> or above it.\<close>

definition saveConversation ::
  "store \<Rightarrow> nat \<Rightarrow> string \<Rightarrow> string option \<Rightarrow> turn \<Rightarrow> (store \<times> (js_error + turn list)) option" where
  "saveConversation st pos userId sessionId conversation =
     (case find_user_dir st userId of
        None \<Rightarrow> Some (st, rethrow ''Failed to save conversation'' (Inl (Error ''User not found'')))
      | Some (userDir, d) \<Rightarrow>
          (let files = (case sessions_dir d of None \<Rightarrow> [] | Some fs \<Rightarrow> fs);
               st1 = overwrite userDir (d\<lparr>sessions_dir := Some files\<rparr>) st
           in if CHR 0x00 \<in> set (session_file sessionId)
              then Some (st1, rethrow ''Failed to save conversation''
                     (Inl (TypeError (null_bytes_message
                        [userDir, ''sessions'', session_file sessionId]))))
              else
                case walk [''sessions'', userDir] (split_path (session_file sessionId)) of
                  None \<Rightarrow> None
                | Some stack \<Rightarrow>
                    (case rev stack of
                       [] \<Rightarrow> None
                     | [f] \<Rightarrow> None
                     | d0 # x # rest \<Rightarrow>
                         (let (st', r) = save_at st1 pos (d0 # x # rest) conversation
                          in Some (st', rethrow ''Failed to save conversation'' r)))))"

record session =
  s_sessionId :: string
  s_data :: "turn list"

record got_user_data =
  gd_profile :: user_data
  gd_sessions :: "session list"
  gd_folderPath :: string

text \<open>\<open>getUserData(userId)\<close>; \<open>folderPath\<close> is given relative to \<open>usersDir\<close>.\<close>

definition getUserData :: "store \<Rightarrow> string \<Rightarrow> js_error + got_user_data" where
  "getUserData st userId = rethrow ''Failed to get user data''
     (case find_user_dir st userId of
        None \<Rightarrow> Inl (Error ''User not found'')
      | Some (userDir, d) \<Rightarrow>
          Inr \<lparr>gd_profile = profile_json d,
               gd_sessions = (case sessions_dir d of
                                None \<Rightarrow> []
                              | Some files \<Rightarrow>
                                  map (\<lambda>(file, sessionData).
                                         \<lparr>s_sessionId = replace_first ''.json'' [] file,
                                          s_data = sessionData\<rparr>) files),
               gd_folderPath = userDir\<rparr>)"


subsection \<open>Progress and summary\<close>

datatype js_number = NaN | Number int

text \<open>\<open>Math.round((completedDimensions / totalDimensions) * 100)\<close>. The division and the
  product are taken exactly; \<open>Math.round\<close> rounds a half upwards, as \<open>round\<close> does. For an
  object without properties the quotient is \<open>0 / 0\<close>, which is \<open>NaN\<close>. With twelve
  properties the thirteen possible products lie at least one sixth from a rounding
  boundary, so the double the program computes rounds to the same integer.\<close>

definition calculateProfileCompleteness :: "json obj \<Rightarrow> js_number" where
  "calculateProfileCompleteness profile =
    (let totalDimensions = length (map fst profile);
         completedDimensions = length (filter (\<lambda>val. val \<noteq> JNull) (map snd profile))
     in if totalDimensions = 0 then NaN
        else Number (round (real completedDimensions / real totalDimensions * 100)))"

definition getAssessedDimensions :: "json obj \<Rightarrow> string list" where
  "getAssessedDimensions profile = map fst (filter (\<lambda>(key, val). val \<noteq> JNull) profile)"






subsection \<open>The callers in \<open>server.js\<close> and \<open>MasterAgent\<close>\<close>

text \<open>\<open>POST /api/register-user\<close>: \<open>if (!name)\<close> answers 400 for a missing or empty name;
  every other name goes to \<open>createUser\<close>.\<close>

datatype register_response = BadRequest string | Registered created_user

definition register_user ::
  "store \<Rightarrow> nat \<Rightarrow> string option \<Rightarrow> string \<Rightarrow> string \<Rightarrow> store \<times> register_response" where
  "register_user st pos name userId now =
    (case name of
       None \<Rightarrow> (st, BadRequest ''Name is required'')
     | Some n \<Rightarrow>
         if n = [] then (st, BadRequest ''Name is required'')
         else (let (st', user) = createUser st pos n userId now in (st', Registered user)))"

text \<open>The keys of \<open>this.agents\<close> in the constructor of \<open>MasterAgent\<close>.\<close>

definition agents :: "string list" where
  "agents =
    [''cognitiveAbilities'', ''personality'', ''emotionalIntelligence'', ''physicalContext'',
     ''strengthsWeaknesses'', ''skills'', ''constraints'', ''interests'', ''motivationsValues'',
     ''aspirations'', ''trackRecord'', ''learningPreferences'']"

text \<open>The effect of \<open>MasterAgent.routeToSpecializedAgent\<close> on the store, with the answer of
  the language model as the input \<open>assessmentData\<close> (\<open>None\<close> when the field is missing).
  A name that is no key of \<open>this.agents\<close> throws inside the \<open>try\<close> (``Agent not found'', or a
  \<open>TypeError\<close> for an inherited property such as \<open>constructor\<close>); the \<open>catch\<close> returns the
  fallback answer with \<open>error: true\<close>, which is the flag returned here.\<close>

definition routeToSpecializedAgent ::
  "store \<Rightarrow> string \<Rightarrow> string \<Rightarrow> json option \<Rightarrow> string \<Rightarrow> store \<times> bool" where
  "routeToSpecializedAgent st userId agent assessmentData now =
    (if agent \<notin> set agents then (st, True)
     else case assessmentData of
            None \<Rightarrow> (st, False)
          | Some d \<Rightarrow>
              if truthy (Some d)
              then (case updateUserProfile st userId agent d now of
                      Inl e \<Rightarrow> (st, True)
                    | Inr (st', profile) \<Rightarrow> (st', False))
              else (st, False))"

subsection \<open>The decision flow of \<open>AGENT_LOGICAL_FLOW_DETAILED.md\<close>\<close>



















subsection \<open>Identifiers\<close>

text \<open>The shape of a version 4 UUID as \<open>uuidv4()\<close> prints it:
  \<open>xxxxxxxx-xxxx-4xxx-yxxx-xxxxxxxxxxxx\<close> in lower-case hexadecimal.\<close>

definition is_hex :: "char \<Rightarrow> bool" where
  "is_hex c = (let n = (of_char c :: nat) in (48 \<le> n \<and> n \<le> 57) \<or> (97 \<le> n \<and> n \<le> 102))"

definition is_uuid :: "string \<Rightarrow> bool" where
  "is_uuid u =
    (length u = 36 \<and>
     list_all (\<lambda>(i, c). if i = 8 \<or> i = 13 \<or> i = 18 \<or> i = 23 then c = CHR ''-'' else is_hex c)
              (enumerate 0 u) \<and>
     u ! 14 = CHR ''4'' \<and> u ! 19 \<in> set ''89ab'')"


subsection \<open>Reachable stores\<close>


text \<open>The stores the server builds: profiles are written by \<open>createUser\<close> and by
  \<open>routeToSpecializedAgent\<close> only.\<close>

inductive served :: "store \<Rightarrow> bool" where
  s_empty: "served []"
| s_create: "served st \<Longrightarrow> is_uuid userId \<Longrightarrow>
     served (fst (createUser st pos name userId now))"
| s_route: "served st \<Longrightarrow> served (fst (routeToSpecializedAgent st userId agent assessmentData now))"
| s_save: "served st \<Longrightarrow> saveConversation st pos userId sid conversation = Some (st', r) \<Longrightarrow>
     served st'"

subsection \<open>Notions used by the properties\<close>

text \<open>The dimensions of a profile whose slot holds a value other than \<open>null\<close>.\<close>

definition non_null_slots :: "json obj \<Rightarrow> string set" where
  "non_null_slots profile = {k \<in> set dimension_keys. \<exists>v. map_of profile k = Some v \<and> v \<noteq> JNull}"

text \<open>Sample profiles: three dimensions assessed, and all twelve.\<close>

definition afrin_profile :: "json obj" where
  "afrin_profile = assign ''skills'' (JStr ''s'') (assign ''interests'' (JStr ''i'')
     (assign ''personality'' (JStr ''p'') initial_profile))"

definition full_profile :: "json obj" where
  "full_profile = map (\<lambda>k. (k, JBool True)) dimension_keys"



text \<open>The session files of a user directory; there are none before \<open>sessions\<close> is created.\<close>

definition session_files :: "user_dir \<Rightarrow> (string \<times> turn list) list" where
  "session_files d = (case sessions_dir d of None \<Rightarrow> [] | Some fs \<Rightarrow> fs)"

text \<open>The turns a session file of a user directory holds, none when there is no such file.\<close>

definition file_turns :: "user_dir \<Rightarrow> string \<Rightarrow> turn list" where
  "file_turns d f = (case map_of (session_files d) f of None \<Rightarrow> [] | Some ts \<Rightarrow> ts)"

text \<open>A string that names a file of the directory it is joined to: it holds no slash and
  no character with code 0.\<close>

definition file_name :: "string \<Rightarrow> bool" where
  "file_name s = (CHR ''/'' \<notin> set s \<and> CHR 0x00 \<notin> set s)"

text \<open>What a call of \<open>saveConversation\<close> keeps of a directory: its name and its profile; a
  session file it holds afterwards was there before or holds a turn.\<close>

definition kept :: "string \<times> user_dir \<Rightarrow> string \<times> user_dir \<Rightarrow> bool" where
  "kept e e' = (fst e' = fst e \<and> profile_json (snd e') = profile_json (snd e) \<and>
     (\<forall>f\<in>set (session_files (snd e')). snd f \<noteq> [] \<or> f \<in> set (session_files (snd e))))"

text \<open>A sample store: one user, registered as \<open>Afrin\<close>.\<close>

definition uid0 :: string where "uid0 = ''3f2b8c1e-9a4d-4e7b-8c21-5d6f7a8b9c0d''"
definition t0 :: string where "t0 = ''2025-08-29T10:00:00.000Z''"
definition t1 :: string where "t1 = ''2025-08-29T10:05:00.000Z''"
definition t2 :: string where "t2 = ''2025-08-29T10:10:00.000Z''"

definition store_afrin :: store where
  "store_afrin = fst (createUser [] 0 ''Afrin'' uid0 t0)"

definition afrin_data :: user_data where
  "afrin_data = \<lparr>ud_id = uid0, ud_name = ''Afrin'', ud_createdAt = t0,
      ud_profile = initial_profile, ud_sessions = [], ud_updatedAt = None\<rparr>"

text \<open>What \<open>getUserContext\<close> shows of a profile, and the store an update leaves.\<close>

definition slot :: "store \<Rightarrow> string \<Rightarrow> string \<Rightarrow> json option" where
  "slot st userId k = (case getUserContext st userId of Inl e \<Rightarrow> None | Inr p \<Rightarrow> map_of (ud_profile p) k)"

definition profile_keys :: "store \<Rightarrow> string \<Rightarrow> string list" where
  "profile_keys st userId = (case getUserContext st userId of Inl e \<Rightarrow> [] | Inr p \<Rightarrow> map fst (ud_profile p))"

definition after_update :: "store \<Rightarrow> string \<Rightarrow> string \<Rightarrow> json \<Rightarrow> string \<Rightarrow> store" where
  "after_update st userId k v now =
     (case updateUserProfile st userId k v now of Inl e \<Rightarrow> st | Inr (st', p) \<Rightarrow> st')"



text \<open>Every stored profile has the twelve dimension keys, in the order of creation.\<close>

definition twelve_keys :: "store \<Rightarrow> bool" where
  "twelve_keys st = (\<forall>e\<in>set st. map fst (ud_profile (profile_json (snd e))) = dimension_keys)"

text \<open>Three conversation turns.\<close>

definition turn_a :: turn where
  "turn_a = \<lparr>timestamp = t0, userMessage = ''hello'', botResponse = JStr ''Welcome''\<rparr>"

definition turn_b :: turn where
  "turn_b = \<lparr>timestamp = t1, userMessage = ''I like puzzles'', botResponse = JStr ''Noted''\<rparr>"

definition turn_c :: turn where
  "turn_c = \<lparr>timestamp = t2, userMessage = ''what next'', botResponse = JNull\<rparr>"






section \<open>Properties\<close>

subsection \<open>Profile completeness\<close>

lemma count_values:
  "distinct (map fst p) \<Longrightarrow>
   length (filter P (map snd p)) = card {k \<in> fst ` set p. \<exists>v. map_of p k = Some v \<and> P v}"
proof (induction p)
  case Nil
  then show ?case by simp
next
  case (Cons a p)
  obtain k v where a: "a = (k, v)" by (cases a)
  from Cons.prems a have k: "k \<notin> fst ` set p" and d: "distinct (map fst p)" by auto
  let ?S = "{k' \<in> fst ` set p. \<exists>w. map_of p k' = Some w \<and> P w}"
  have fin: "finite ?S" by simp
  have kS: "k \<notin> ?S" using k by simp
  have eq: "{k' \<in> fst ` set (a # p). \<exists>w. map_of (a # p) k' = Some w \<and> P w}
        = (if P v then insert k ?S else ?S)"
    using k by (auto simp: a)
  have "card (if P v then insert k ?S else ?S) = (if P v then Suc (card ?S) else card ?S)"
    using fin kS by (simp del: mem_Collect_eq)
  moreover have "length (filter P (map snd (a # p))) =
      (if P v then Suc (length (filter P (map snd p))) else length (filter P (map snd p)))"
    by (simp add: a)
  ultimately show ?case
    using Cons.IH[OF d] by (simp only: eq)
qed

lemma length_dimension_keys: "length dimension_keys = 12"
  by (simp add: dimension_keys_def)

lemma distinct_dimension_keys: "distinct dimension_keys"
  by (simp add: dimension_keys_def)

lemma assessed_filter:
  "getAssessedDimensions p = map fst (filter (\<lambda>kv. snd kv \<noteq> JNull) p)"
  by (simp add: getAssessedDimensions_def case_prod_unfold)

lemma set_assessed:
  "distinct (map fst p) \<Longrightarrow>
   set (getAssessedDimensions p) = {k \<in> fst ` set p. \<exists>v. map_of p k = Some v \<and> v \<noteq> JNull}"
  by (force simp: assessed_filter)

lemma length_assessed:
  "length (getAssessedDimensions p) = length (filter (\<lambda>v. v \<noteq> JNull) (map snd p))"
  by (simp add: assessed_filter filter_map comp_def)

text \<open>
  C4. For a profile object whose keys are the twelve dimensions,
  \<open>calculateProfileCompleteness\<close> returns the rounded value of one hundred times the number
  of non-null slots over twelve, never \<open>NaN\<close>; \<open>getAssessedDimensions\<close> lists exactly the
  non-null slots. No slot assessed gives 0, twelve give 100, three give 25.
\<close>

theorem completeness_percentage:
  assumes "distinct (map fst profile)" and "fst ` set profile = set dimension_keys"
  shows "calculateProfileCompleteness profile
           = Number (round (100 * real (card (non_null_slots profile)) / 12)) \<and>
         set (getAssessedDimensions profile) = non_null_slots profile \<and>
         length (getAssessedDimensions profile) = card (non_null_slots profile) \<and>
         (card (non_null_slots profile) = 0 \<longrightarrow> calculateProfileCompleteness profile = Number 0) \<and>
         (card (non_null_slots profile) = 12 \<longrightarrow> calculateProfileCompleteness profile = Number 100) \<and>
         (card (non_null_slots profile) = 3 \<longrightarrow> calculateProfileCompleteness profile = Number 25)"
proof -
  have total: "length (map fst profile) = 12"
    using assms distinct_card[of "map fst profile"] distinct_card[OF distinct_dimension_keys]
    by (simp add: length_dimension_keys)
  have slots: "non_null_slots profile
       = {k \<in> fst ` set profile. \<exists>v. map_of profile k = Some v \<and> v \<noteq> JNull}"
    by (simp add: non_null_slots_def assms(2))
  have cnt: "length (filter (\<lambda>v. v \<noteq> JNull) (map snd profile)) = card (non_null_slots profile)"
    using count_values[OF assms(1), of "\<lambda>v. v \<noteq> JNull"] by (simp only: slots)
  have main: "calculateProfileCompleteness profile
           = Number (round (100 * real (card (non_null_slots profile)) / 12))"
    using total cnt by (simp add: calculateProfileCompleteness_def Let_def)
  have "set (getAssessedDimensions profile) = non_null_slots profile"
    using set_assessed[OF assms(1)] by (simp only: slots)
  moreover have "length (getAssessedDimensions profile) = card (non_null_slots profile)"
    using cnt by (simp only: length_assessed)
  ultimately show ?thesis
    using main by simp
qed

text \<open>The three boundary profiles, evaluated.\<close>

lemma afrin_keys: "map fst afrin_profile = dimension_keys"
  by (simp add: afrin_profile_def assign_def initial_profile_def dimension_keys_def)

theorem completeness_percentage_witness:
  "distinct (map fst afrin_profile) \<and> fst ` set afrin_profile = set dimension_keys \<and>
   card (non_null_slots afrin_profile) = 3 \<and>
   calculateProfileCompleteness afrin_profile = Number 25 \<and>
   fst ` set initial_profile = set dimension_keys \<and>
   card (non_null_slots initial_profile) = 0 \<and>
   calculateProfileCompleteness initial_profile = Number 0 \<and>
   fst ` set full_profile = set dimension_keys \<and>
   card (non_null_slots full_profile) = 12 \<and>
   calculateProfileCompleteness full_profile = Number 100"
proof -
  have d3: "distinct (map fst afrin_profile)"
    by (simp only: afrin_keys distinct_dimension_keys)
  have k3: "fst ` set afrin_profile = set dimension_keys"
    using afrin_keys by (metis set_map)
  have l3: "length (getAssessedDimensions afrin_profile) = 3"
    by (simp add: getAssessedDimensions_def afrin_profile_def assign_def initial_profile_def
        dimension_keys_def)
  have m0: "map fst initial_profile = dimension_keys"
    by (simp add: initial_profile_def comp_def)
  have d0: "distinct (map fst initial_profile)"
    by (simp only: m0 distinct_dimension_keys)
  have k0: "fst ` set initial_profile = set dimension_keys"
    using m0 by (metis set_map)
  have l0: "length (getAssessedDimensions initial_profile) = 0"
    by (simp add: getAssessedDimensions_def initial_profile_def dimension_keys_def)
  have m12: "map fst full_profile = dimension_keys"
    by (simp add: full_profile_def comp_def)
  have d12: "distinct (map fst full_profile)"
    by (simp only: m12 distinct_dimension_keys)
  have k12: "fst ` set full_profile = set dimension_keys"
    using m12 by (metis set_map)
  have l12: "length (getAssessedDimensions full_profile) = 12"
    by (simp add: getAssessedDimensions_def full_profile_def dimension_keys_def)
  show ?thesis
    using d3 k3 l3 k0 l0 k12 l12
      completeness_percentage[OF d3 k3] completeness_percentage[OF d0 k0]
      completeness_percentage[OF d12 k12]
    by simp
qed

subsection \<open>Substrings and directory lookup\<close>

lemma starts_with_iff: "starts_with s t \<longleftrightarrow> (\<exists>b. s = t @ b)"
  by (induction s t rule: starts_with.induct) auto

lemma str_includes_iff: "str_includes s t \<longleftrightarrow> (\<exists>a b. s = a @ t @ b)"
proof (induction s)
  case Nil
  then show ?case by auto
next
  case (Cons d s)
  show ?case
  proof
    assume "str_includes (d # s) t"
    then consider "starts_with (d # s) t" | "str_includes s t" by auto
    then show "\<exists>a b. d # s = a @ t @ b"
    proof cases
      case 1
      then obtain b where "d # s = t @ b" by (auto simp: starts_with_iff)
      then have "d # s = [] @ t @ b" by simp
      then show ?thesis by blast
    next
      case 2
      then obtain a b where "s = a @ t @ b" using Cons.IH by blast
      then have "d # s = (d # a) @ t @ b" by simp
      then show ?thesis by blast
    qed
  next
    assume "\<exists>a b. d # s = a @ t @ b"
    then obtain a b where ab: "d # s = a @ t @ b" by blast
    show "str_includes (d # s) t"
    proof (cases a)
      case Nil
      then have "starts_with (d # s) t" using ab by (auto simp: starts_with_iff)
      then show ?thesis by simp
    next
      case (Cons e a')
      then have "s = a' @ t @ b" using ab by simp
      then have "str_includes s t" using Cons.IH by blast
      then show ?thesis by simp
    qed
  qed
qed

lemma map_fst_overwrite: "map fst (overwrite k v xs) = map fst xs"
  by (induction xs) auto

lemma find_overwrite:
  "find (\<lambda>d. Q (fst d)) xs = Some (k, v) \<Longrightarrow>
   find (\<lambda>d. Q (fst d)) (overwrite k v' xs) = Some (k, v')"
proof (induction xs)
  case Nil
  then show ?case by simp
next
  case (Cons p xs)
  show ?case
  proof (cases "Q (fst p)")
    case True
    with Cons.prems have "p = (k, v)" by simp
    then show ?thesis using True by simp
  next
    case False
    with Cons.prems have f: "find (\<lambda>d. Q (fst d)) xs = Some (k, v)" by simp
    then obtain i where "i < length xs" "Q (fst (xs ! i))" "(k, v) = xs ! i"
      unfolding find_Some_iff by blast
    then have "Q k" by (metis fst_conv)
    with False have "fst p \<noteq> k" by auto
    then show ?thesis using False Cons.IH[OF f] by simp
  qed
qed

lemma find_user_dir_overwrite:
  "find_user_dir st userId = Some (dir, d) \<Longrightarrow>
   find_user_dir (overwrite dir d' st) userId = Some (dir, d')"
  unfolding find_user_dir_def by (rule find_overwrite)



lemma getUserContext_found:
  "find_user_dir st userId = Some (dir, d) \<Longrightarrow> getUserContext st userId = Inr (profile_json d)"
  by (simp add: getUserContext_def)

lemma getUserContext_Inr:
  "getUserContext st userId = Inr p \<Longrightarrow> \<exists>dir d. find_user_dir st userId = Some (dir, d) \<and> profile_json d = p"
  by (auto simp: getUserContext_def split: option.splits)

lemma map_of_put: "map_of (put_property k v obj) = (map_of obj)(k \<mapsto> v)"
  by (induction obj) auto

lemma keys_put: "fst ` set (put_property k v obj) = insert k (fst ` set obj)"
  by (induction obj) auto

lemma map_fst_put_mem: "k \<in> fst ` set obj \<Longrightarrow> map fst (put_property k v obj) = map fst obj"
  by (induction obj) auto

lemma map_fst_put_new: "k \<notin> fst ` set obj \<Longrightarrow> map fst (put_property k v obj) = map fst obj @ [k]"
  by (induction obj) auto

lemma map_of_assign:
  "k \<noteq> ''__proto__'' \<Longrightarrow> map_of (assign k v obj) = (map_of obj)(k \<mapsto> v)"
  by (simp add: assign_def map_of_put)

lemma keys_assign:
  "fst ` set (assign k v obj)
     = (if k = ''__proto__'' then fst ` set obj else insert k (fst ` set obj))"
  by (simp add: assign_def keys_put)

lemma map_fst_assign_mem: "k \<in> fst ` set obj \<Longrightarrow> map fst (assign k v obj) = map fst obj"
  by (simp add: assign_def map_fst_put_mem)

lemma map_fst_assign_new:
  "k \<noteq> ''__proto__'' \<Longrightarrow> k \<notin> fst ` set obj \<Longrightarrow> map fst (assign k v obj) = map fst obj @ [k]"
  by (simp add: assign_def map_fst_put_new)


subsection \<open>Paths of session files\<close>

lemma find_first_entry:
  "find (\<lambda>d. Q (fst d)) st = Some (k, d) \<Longrightarrow> map_of st k = Some d"
proof (induction st)
  case Nil
  then show ?case by simp
next
  case (Cons e st)
  show ?case
  proof (cases "Q (fst e)")
    case True
    with Cons.prems have "e = (k, d)" by simp
    then show ?thesis by simp
  next
    case False
    with Cons.prems have f: "find (\<lambda>d. Q (fst d)) st = Some (k, d)" by simp
    then obtain i where "i < length st" "Q (fst (st ! i))" "(k, d) = st ! i"
      unfolding find_Some_iff by blast
    then have "Q k" by (metis fst_conv)
    with False have "fst e \<noteq> k" by auto
    then show ?thesis using Cons.IH[OF f] by (cases e) simp
  qed
qed

lemma find_user_dir_first_entry:
  "find_user_dir st userId = Some (k, d) \<Longrightarrow> map_of st k = Some d"
  using find_first_entry[of "\<lambda>x. str_includes x userId" st k d]
  by (simp add: find_user_dir_def)

lemma map_of_overwrite:
  "k \<in> fst ` set xs \<Longrightarrow> map_of (overwrite k v xs) x = (if x = k then Some v else map_of xs x)"
proof (induction xs)
  case Nil
  then show ?case by simp
next
  case (Cons p xs)
  show ?case
  proof (cases "fst p = k")
    case True
    then show ?thesis by simp
  next
    case False
    with Cons.prems have "k \<in> fst ` set xs" by auto
    then have "map_of (overwrite k v xs) x = (if x = k then Some v else map_of xs x)"
      by (rule Cons.IH)
    then show ?thesis using False by auto
  qed
qed

lemma overwrite_overwrite: "overwrite k v (overwrite k w xs) = overwrite k v xs"
  by (induction xs) auto

lemma map_of_keys: "map_of xs k = Some v \<Longrightarrow> k \<in> fst ` set xs"
  by (metis domI dom_map_of_conv_image_fst)

lemma split_path_plain: "CHR ''/'' \<notin> set s \<Longrightarrow> split_path s = [s]"
  by (induction s) auto

lemma length_session_file: "5 \<le> length (session_file sid)"
  by (cases sid) auto

lemma session_file_name:
  "session_file sid \<noteq> [] \<and> session_file sid \<noteq> ''.'' \<and> session_file sid \<noteq> ''..''"
  using length_session_file[of sid] by auto

lemma walk_plain:
  assumes "CHR ''/'' \<notin> set (session_file sid)"
  shows "walk [''sessions'', dir] (split_path (session_file sid))
           = Some [session_file sid, ''sessions'', dir]"
  using session_file_name[of sid] by (simp add: split_path_plain[OF assms])

lemma save_unknown:
  "find_user_dir st userId = None \<Longrightarrow>
   saveConversation st pos userId sid c
     = Some (st, Inl (JsError ''Error'' ''Failed to save conversation: User not found''))"
  by (simp add: saveConversation_def Error_def)

lemma save_at_session:
  assumes "map_of st dir = Some d" and "sessions_dir d = Some files"
  shows "save_at st pos [dir, ''sessions'', f] c
     = (overwrite dir
          (d\<lparr>sessions_dir := Some (write_entry pos f
               (map written_turn ((case map_of files f of None \<Rightarrow> [] | Some ts \<Rightarrow> ts) @ [c]))
               files)\<rparr>) st,
        Inr ((case map_of files f of None \<Rightarrow> [] | Some ts \<Rightarrow> ts) @ [c]))"
proof (cases "map_of files f")
  case None
  then have nk: "f \<notin> fst ` set files"
    by (simp add: map_of_eq_None_iff)
  have k: "path_kind st [dir, ''sessions'', f] = NoEntry"
    using assms nk by (simp add: entry_kind_def)
  have p: "path_kind st [dir, ''sessions''] = IsDir"
    using assms by (simp add: entry_kind_def)
  show ?thesis
    using assms None by (simp add: save_at_def k p del: path_kind.simps)
next
  case (Some ts)
  then have "f \<in> fst ` set files" by (rule map_of_keys)
  then have k: "path_kind st [dir, ''sessions'', f] = IsFile"
    using assms by (simp add: entry_kind_def)
  show ?thesis
    using assms Some by (simp add: save_at_def k del: path_kind.simps)
qed

text \<open>A session id with the character of code 0 fails after \<open>fs.ensureDir\<close>.\<close>

lemma save_null:
  assumes "CHR 0x00 \<in> set (session_file sid)" and "find_user_dir st userId = Some (dir, d)"
  shows "saveConversation st pos userId sid c
     = Some (overwrite dir
              (d\<lparr>sessions_dir := Some (case sessions_dir d of None \<Rightarrow> [] | Some fs \<Rightarrow> fs)\<rparr>) st,
            Inl (JsError ''Error'' (''Failed to save conversation: '' @
                   null_bytes_message [dir, ''sessions'', session_file sid])))"
  using assms by (simp add: saveConversation_def Let_def TypeError_def Error_def)

text \<open>For a session id that names a file, the file lies in the \<open>sessions\<close> directory of
  the user the id resolves to.\<close>

lemma save_plain:
  assumes "CHR ''/'' \<notin> set (session_file sid)" and "CHR 0x00 \<notin> set (session_file sid)"
    and "find_user_dir st userId = Some (dir, d)"
  shows "saveConversation st pos userId sid c
     = Some (overwrite dir
              (d\<lparr>sessions_dir := Some (write_entry pos (session_file sid)
                   (map written_turn
                      ((case map_of (case sessions_dir d of None \<Rightarrow> [] | Some fs \<Rightarrow> fs)
                               (session_file sid) of
                          None \<Rightarrow> [] | Some ts \<Rightarrow> ts) @ [c]))
                   (case sessions_dir d of None \<Rightarrow> [] | Some fs \<Rightarrow> fs))\<rparr>) st,
            Inr ((case map_of (case sessions_dir d of None \<Rightarrow> [] | Some fs \<Rightarrow> fs)
                         (session_file sid) of
                    None \<Rightarrow> [] | Some ts \<Rightarrow> ts) @ [c]))"
proof -
  let ?files = "case sessions_dir d of None \<Rightarrow> [] | Some fs \<Rightarrow> fs"
  let ?d1 = "d\<lparr>sessions_dir := Some ?files\<rparr>"
  let ?st1 = "overwrite dir ?d1 st"
  have "map_of st dir = Some d"
    using assms(3) by (rule find_user_dir_first_entry)
  then have "dir \<in> fst ` set st" by (rule map_of_keys)
  then have m: "map_of ?st1 dir = Some ?d1"
    by (simp add: map_of_overwrite)
  have s: "sessions_dir ?d1 = Some ?files" by simp
  have w: "walk [''sessions'', dir] (split_path (session_file sid))
           = Some [session_file sid, ''sessions'', dir]"
    using assms(1) by (rule walk_plain)
  have "saveConversation st pos userId sid c
      = (let (st', r) = save_at ?st1 pos [dir, ''sessions'', session_file sid] c
         in Some (st', rethrow ''Failed to save conversation'' r))"
    using assms(2,3) by (simp add: saveConversation_def Let_def w)
  then show ?thesis
    by (simp add: save_at_session[OF m s] overwrite_overwrite)
qed


subsection \<open>A UUID inside a directory name\<close>







subsection \<open>Invariants of the reachable stores\<close>

lemma set_overwrite: "set (overwrite k v xs) \<subseteq> insert (k, v) (set xs)"
  by (induction xs) auto

lemma set_insert_at: "set (insert_at pos x xs) = insert x (set xs)"
proof -
  have "set (take pos xs) \<union> set (drop pos xs) = set xs"
    by (metis append_take_drop_id set_append)
  then show ?thesis by (auto simp: insert_at_def)
qed

lemma set_write_entry: "set (write_entry pos k v xs) \<subseteq> insert (k, v) (set xs)"
  using set_overwrite[of k v xs] by (auto simp: write_entry_def set_insert_at)




lemma find_user_dir_mem: "find_user_dir st userId = Some e \<Longrightarrow> e \<in> set st"
  unfolding find_user_dir_def find_Some_iff by auto

lemma written_initial:
  "written_data \<lparr>ud_id = userId, ud_name = name, ud_createdAt = now,
                  ud_profile = initial_profile, ud_sessions = [], ud_updatedAt = None\<rparr>
   = \<lparr>ud_id = userId, ud_name = name, ud_createdAt = now,
      ud_profile = initial_profile, ud_sessions = [], ud_updatedAt = None\<rparr>"
  by (simp add: written_data_def initial_profile_def)


lemma createUser_entries:
  assumes "e \<in> set (fst (createUser st pos name userId now))"
  shows "e \<in> set st \<or>
   (fst e = sanitize name @ ''_'' @ userId \<and>
    profile_json (snd e) = \<lparr>ud_id = userId, ud_name = sanitize name, ud_createdAt = now,
                     ud_profile = initial_profile, ud_sessions = [], ud_updatedAt = None\<rparr> \<and>
    (sessions_dir (snd e) = None \<or>
     (\<exists>old. (fst e, old) \<in> set st \<and> sessions_dir (snd e) = sessions_dir old)))"
proof (cases "map_of st (sanitize name @ ''_'' @ userId)")
  case None
  then have "e \<in> set st \<or> e = (sanitize name @ ''_'' @ userId,
         \<lparr>profile_json = \<lparr>ud_id = userId, ud_name = sanitize name, ud_createdAt = now,
                     ud_profile = initial_profile, ud_sessions = [], ud_updatedAt = None\<rparr>,
          sessions_dir = None, other_files = []\<rparr>)"
    using assms set_write_entry by (fastforce simp: createUser_def Let_def written_initial)
  then show ?thesis by auto
next
  case (Some old)
  then have m: "(sanitize name @ ''_'' @ userId, old) \<in> set st"
    by (rule map_of_SomeD)
  from Some have "e \<in> set st \<or> e = (sanitize name @ ''_'' @ userId,
         old\<lparr>profile_json := \<lparr>ud_id = userId, ud_name = sanitize name, ud_createdAt = now,
                     ud_profile = initial_profile, ud_sessions = [], ud_updatedAt = None\<rparr>\<rparr>)"
    using assms set_write_entry by (fastforce simp: createUser_def Let_def written_initial)
  then show ?thesis
  proof
    assume "e \<in> set st" then show ?thesis by simp
  next
    assume e: "e = (sanitize name @ ''_'' @ userId,
         old\<lparr>profile_json := \<lparr>ud_id = userId, ud_name = sanitize name, ud_createdAt = now,
                     ud_profile = initial_profile, ud_sessions = [], ud_updatedAt = None\<rparr>\<rparr>)"
    have "(fst e, old) \<in> set st \<and> sessions_dir (snd e) = sessions_dir old"
      using m by (simp add: e)
    then show ?thesis by (auto simp: e)
  qed
qed

lemma updateUserProfile_Inr:
  assumes "updateUserProfile st userId k v now = Inr (st', p')"
  obtains dir d where "find_user_dir st userId = Some (dir, d)"
    and "p' = (profile_json d)\<lparr>ud_profile := assign k v (ud_profile (profile_json d)), ud_updatedAt := Some now\<rparr>"
    and "st' = overwrite dir (d\<lparr>profile_json := written_data p'\<rparr>) st"
  using assms by (auto simp: updateUserProfile_def Let_def split: option.splits)


lemma kept_refl: "kept e e"
  by (simp add: kept_def)

lemma kept_trans: "kept e e1 \<Longrightarrow> kept e1 e' \<Longrightarrow> kept e e'"
  unfolding kept_def by auto

lemma overwrite_kept:
  assumes "map_of st k = Some d" and "kept (k, d) (k, d')" and "e' \<in> set (overwrite k d' st)"
  shows "\<exists>e\<in>set st. kept e e'"
proof -
  have m: "(k, d) \<in> set st" using assms(1) by (rule map_of_SomeD)
  from assms(3) have "e' \<in> set st \<or> e' = (k, d')"
    using set_overwrite[of k d' st] by blast
  then show ?thesis
  proof
    assume "e' \<in> set st"
    then show ?thesis using kept_refl by blast
  next
    assume "e' = (k, d')"
    then show ?thesis using m assms(2) by blast
  qed
qed

lemma write_turns_kept:
  assumes "ts \<noteq> []" and "e' \<in> set (write_turns st pos p ts)"
  shows "\<exists>e\<in>set st. kept e e'"
proof -
  have same: ?thesis if "write_turns st pos p ts = st"
    using that assms(2) by (intro bexI[of _ e']) (simp_all add: kept_refl)
  show ?thesis
  proof (cases "\<exists>d x. p = [d, x]")
    case True
    then obtain d x where p: "p = [d, x]" by blast
    show ?thesis
    proof (cases "map_of st d")
      case None
      then show ?thesis using p by (intro same) simp
    next
      case (Some dd)
      have "kept (d, dd) (d, dd\<lparr>other_files := write_entry pos x ts (other_files dd)\<rparr>)"
        by (simp add: kept_def session_files_def)
      with Some show ?thesis
        using assms(2) unfolding p by (intro overwrite_kept[of st d dd]) simp_all
    qed
  next
    case False
    note two = False
    show ?thesis
    proof (cases "\<exists>d x y. p = [d, x, y]")
      case True
      then obtain d x y where p: "p = [d, x, y]" by blast
      show ?thesis
      proof (cases "map_of st d")
        case None
        then show ?thesis using p by (intro same) simp
      next
        case (Some dd)
        note dd = Some
        show ?thesis
        proof (cases "sessions_dir dd")
          case None
          then show ?thesis using p dd by (intro same) simp
        next
          case (Some files)
          have "set (write_entry pos y ts files) \<subseteq> insert (y, ts) (set files)"
            by (rule set_write_entry)
          then have "kept (d, dd) (d, dd\<lparr>sessions_dir := Some (write_entry pos y ts files)\<rparr>)"
            using assms(1) Some by (auto simp: kept_def session_files_def)
          with dd show ?thesis
            using assms(2) Some unfolding p by (intro overwrite_kept[of st d dd]) simp_all
        qed
      qed
    next
      case False
      have "write_turns st pos p ts = st"
      proof (cases p)
        case Nil
        then show ?thesis by simp
      next
        case (Cons a q)
        note c1 = Cons
        show ?thesis
        proof (cases q)
          case Nil
          then show ?thesis using c1 by simp
        next
          case (Cons b q2)
          note c2 = Cons
          show ?thesis
          proof (cases q2)
            case Nil
            then show ?thesis using c1 c2 two by simp
          next
            case (Cons c q3)
            then show ?thesis using c1 c2 False by (cases q3) simp_all
          qed
        qed
      qed
      then show ?thesis by (rule same)
    qed
  qed
qed

lemma save_at_cases:
  "fst (save_at st pos p c) = st \<or>
   (\<exists>ts. ts \<noteq> [] \<and> fst (save_at st pos p c) = write_turns st pos p ts)"
  by (auto simp: save_at_def split: node_kind.splits option.splits)

lemma save_at_kept:
  assumes "e' \<in> set (fst (save_at st pos p c))"
  shows "\<exists>e\<in>set st. kept e e'"
  using save_at_cases[of st pos p c] assms write_turns_kept kept_refl by metis

text \<open>Every call of \<open>saveConversation\<close>, for whatever session id, keeps the names and the
  profiles of the directories, and adds no empty session file.\<close>

lemma saveConversation_kept:
  assumes "saveConversation st pos userId sid c = Some (st', r)" and "e' \<in> set st'"
  shows "\<exists>e\<in>set st. kept e e'"
proof (cases "find_user_dir st userId")
  case None
  then have "st' = st" using assms(1) by (simp add: save_unknown)
  then show ?thesis using assms(2) kept_refl by blast
next
  case (Some ud)
  obtain dir d where ud: "ud = (dir, d)" by (cases ud)
  have f: "find_user_dir st userId = Some (dir, d)" using Some ud by simp
  let ?d1 = "d\<lparr>sessions_dir := Some (case sessions_dir d of None \<Rightarrow> [] | Some fs \<Rightarrow> fs)\<rparr>"
  let ?st1 = "overwrite dir ?d1 st"
  have m: "map_of st dir = Some d" using f by (rule find_user_dir_first_entry)
  have k1: "kept (dir, d) (dir, ?d1)"
    by (cases "sessions_dir d") (simp_all add: kept_def session_files_def)
  have one: "\<exists>e\<in>set st. kept e e1" if "e1 \<in> set ?st1" for e1
    using m k1 that by (rule overwrite_kept)
  have "st' = ?st1 \<or> (\<exists>p. st' = fst (save_at ?st1 pos p c))"
  proof (cases "CHR 0x00 \<in> set (session_file sid)")
    case True
    then show ?thesis using assms(1) f by (simp add: saveConversation_def Let_def)
  next
    case False
    note nz = False
    show ?thesis
    proof (cases "walk [''sessions'', dir] (split_path (session_file sid))")
      case None
      then show ?thesis using assms(1) f nz by (simp add: saveConversation_def Let_def)
    next
      case (Some stack)
      note w = Some
      show ?thesis
      proof (cases "rev stack")
        case Nil
        then show ?thesis using assms(1) f nz w by (simp add: saveConversation_def Let_def)
      next
        case (Cons d0 q)
        note c1 = Cons
        show ?thesis
        proof (cases q)
          case Nil
          then show ?thesis using assms(1) f nz w c1 by (simp add: saveConversation_def Let_def)
        next
          case (Cons x rest)
          have "saveConversation st pos userId sid c
              = Some (fst (save_at ?st1 pos (d0 # x # rest) c),
                      rethrow ''Failed to save conversation'' (snd (save_at ?st1 pos (d0 # x # rest) c)))"
            using f nz w c1 Cons
            by (simp add: saveConversation_def Let_def case_prod_beta)
          then have "st' = fst (save_at ?st1 pos (d0 # x # rest) c)"
            using assms(1) by simp
          then show ?thesis by blast
        qed
      qed
    qed
  qed
  then show ?thesis
  proof
    assume "st' = ?st1"
    then show ?thesis using assms(2) one by simp
  next
    assume "\<exists>p. st' = fst (save_at ?st1 pos p c)"
    then obtain p where "st' = fst (save_at ?st1 pos p c)" by blast
    then obtain e1 where "e1 \<in> set ?st1" and "kept e1 e'"
      using assms(2) save_at_kept by blast
    then show ?thesis using one kept_trans by blast
  qed
qed


subsection \<open>Creating a profile\<close>




lemma str_includes_suffix: "str_includes (a @ t) t"
proof -
  have "a @ t = a @ t @ []" by simp
  then show ?thesis unfolding str_includes_iff by blast
qed


lemma createUser_fresh:
  assumes "sanitize name @ ''_'' @ userId \<notin> fst ` set st"
  shows "fst (createUser st pos name userId now)
     = insert_at pos (sanitize name @ ''_'' @ userId,
         \<lparr>profile_json = \<lparr>ud_id = userId, ud_name = sanitize name, ud_createdAt = now,
                  ud_profile = initial_profile, ud_sessions = [], ud_updatedAt = None\<rparr>,
          sessions_dir = None, other_files = []\<rparr>) st"
proof -
  have "map_of st (sanitize name @ ''_'' @ userId) = None"
    using assms by (simp only: map_of_eq_None_iff not_False_eq_True)
  then show ?thesis
    using assms by (simp add: createUser_def Let_def write_entry_def written_initial)
qed







subsection \<open>The sample store\<close>

lemma is_uuid_uid0: "is_uuid uid0"
  unfolding uid0_def by (simp add: is_uuid_def is_hex_def)


lemma sanitize_afrin: "sanitize ''Afrin'' = ''Afrin''"
  by (simp add: sanitize_def trim_def is_alnum_def is_space_def)


lemma sanitize_bang: "sanitize ''!!!'' = []"
  by (simp add: sanitize_def trim_def is_alnum_def is_space_def)

lemma store_afrin_eq:
  "store_afrin = [(''Afrin_'' @ uid0, \<lparr>profile_json = afrin_data, sessions_dir = None, other_files = []\<rparr>)]"
  using createUser_fresh[of "''Afrin''" uid0 "[]" 0 t0]
  by (simp add: store_afrin_def sanitize_afrin insert_at_def afrin_data_def)



lemma find_afrin: "find_user_dir store_afrin uid0
    = Some (''Afrin_'' @ uid0, \<lparr>profile_json = afrin_data, sessions_dir = None, other_files = []\<rparr>)"
  using str_includes_suffix[of "''Afrin_''" uid0]
  by (simp add: store_afrin_eq find_user_dir_def)

lemma context_afrin: "getUserContext store_afrin uid0 = Inr afrin_data"
  using find_afrin by (simp add: getUserContext_found)


subsection \<open>Writing a dimension\<close>

lemma update_found:
  assumes "find_user_dir st userId = Some (dir, d)"
  shows "updateUserProfile st userId k v now
     = Inr (overwrite dir (d\<lparr>profile_json := written_data
                ((profile_json d)\<lparr>ud_profile := assign k v (ud_profile (profile_json d)),
                                   ud_updatedAt := Some now\<rparr>)\<rparr>) st,
            (profile_json d)\<lparr>ud_profile := assign k v (ud_profile (profile_json d)), ud_updatedAt := Some now\<rparr>)"
  using assms by (simp add: updateUserProfile_def Let_def)

lemma context_after_update:
  assumes "getUserContext st userId = Inr p"
  shows "getUserContext (after_update st userId k v now) userId
     = Inr (written_data (p\<lparr>ud_profile := assign k v (ud_profile p), ud_updatedAt := Some now\<rparr>))"
proof -
  from assms obtain dir d where f: "find_user_dir st userId = Some (dir, d)" and p: "profile_json d = p"
    using getUserContext_Inr by blast
  let ?p' = "written_data (p\<lparr>ud_profile := assign k v (ud_profile p), ud_updatedAt := Some now\<rparr>)"
  have a: "after_update st userId k v now = overwrite dir (d\<lparr>profile_json := ?p'\<rparr>) st"
    using update_found[OF f, of k v now] p by (simp add: after_update_def)
  have "find_user_dir (overwrite dir (d\<lparr>profile_json := ?p'\<rparr>) st) userId
          = Some (dir, d\<lparr>profile_json := ?p'\<rparr>)"
    using f by (rule find_user_dir_overwrite)
  then show ?thesis
    by (simp add: a getUserContext_found)
qed

lemma map_of_stored:
  "map_of (map (map_prod id stored_value) obj) k = map_option stored_value (map_of obj k)"
  by (induction obj) auto

lemma slots_written:
  "map_of (ud_profile (written_data p)) k = map_option stored_value (map_of (ud_profile p) k)"
  by (simp add: written_data_def map_of_stored)

lemma slot_after_update:
  assumes "getUserContext st userId = Inr p" and "k \<noteq> ''__proto__''"
  shows "slot (after_update st userId k v now) userId k = Some (stored_value v)"
  using context_after_update[OF assms(1), of k v now] assms(2)
  by (simp add: slot_def slots_written map_of_assign)

text \<open>Writing a slot twice: the second value replaces the first, and \<open>null\<close> written
  after a value empties the slot again.\<close>

theorem second_write_replaces_first:
  "slot (after_update store_afrin uid0 ''personality'' (JStr ''first'') t1) uid0 ''personality''
     = Some (JStr ''first'') \<and>
   slot (after_update (after_update store_afrin uid0 ''personality'' (JStr ''first'') t1)
           uid0 ''personality'' (JStr ''second'') t2) uid0 ''personality''
     = Some (JStr ''second'') \<and>
   slot (after_update (after_update store_afrin uid0 ''personality'' (JStr ''first'') t1)
           uid0 ''personality'' JNull t2) uid0 ''personality''
     = Some JNull"
proof -
  let ?st1 = "after_update store_afrin uid0 ''personality'' (JStr ''first'') t1"
  have c1: "getUserContext ?st1 uid0
     = Inr (written_data
         (afrin_data\<lparr>ud_profile := assign ''personality'' (JStr ''first'') (ud_profile afrin_data),
                       ud_updatedAt := Some t1\<rparr>))"
    using context_afrin by (rule context_after_update)
  have n: "''personality'' \<noteq> ''__proto__''" by simp
  show ?thesis
    using slot_after_update[OF context_afrin n, of "JStr ''first''" t1]
      slot_after_update[OF c1 n, of "JStr ''second''" t2]
      slot_after_update[OF c1 n, of JNull t2]
    by simp
qed



text \<open>
  C6, evaluated at the name \<open>!!!\<close>. The handler of \<open>/api/register-user\<close> rejects the empty
  name, and \<open>createUser\<close> strips the three characters; the name is empty after that, yet
  the user is registered and a directory \<open>_userId\<close> with the empty name is stored.
\<close>

theorem register_punctuation_name:
  "register_user [] 0 (Some ''!!!'') uid0 t0
     = ([(''_'' @ uid0,
          \<lparr>profile_json = \<lparr>ud_id = uid0, ud_name = [], ud_createdAt = t0,
                            ud_profile = initial_profile, ud_sessions = [], ud_updatedAt = None\<rparr>,
           sessions_dir = None, other_files = []\<rparr>)],
        Registered \<lparr>cu_userId = uid0, cu_name = [], cu_message = welcome_message []\<rparr>) \<and>
   register_user [] 0 (Some []) uid0 t0 = ([], BadRequest ''Name is required'')"
  by (simp add: register_user_def createUser_def sanitize_bang Let_def write_entry_def insert_at_def
      written_initial)

subsection \<open>Lookup by substring\<close>

lemma save_found:
  assumes "file_name (session_file sid)" and "find_user_dir st userId = Some (dir, d)"
  shows "saveConversation st pos userId sid c
     = Some (overwrite dir
              (d\<lparr>sessions_dir := Some (write_entry pos (session_file sid)
                   (map written_turn (file_turns d (session_file sid) @ [c]))
                   (session_files d))\<rparr>) st,
            Inr (file_turns d (session_file sid) @ [c]))"
  using assms(1) save_plain[OF _ _ assms(2), of sid pos c]
  by (simp add: file_name_def file_turns_def session_files_def)

lemma data_found:
  assumes "find_user_dir st userId = Some (dir, d)"
  shows "getUserData st userId
     = Inr \<lparr>gd_profile = profile_json d,
            gd_sessions = map (\<lambda>(file, sessionData).
                                 \<lparr>s_sessionId = replace_first ''.json'' [] file,
                                  s_data = sessionData\<rparr>) (session_files d),
            gd_folderPath = dir\<rparr>"
  using assms by (cases "sessions_dir d") (simp_all add: getUserData_def session_files_def)








subsection \<open>The keys of a stored profile\<close>

lemma agents_eq: "agents = dimension_keys"
  by (simp add: agents_def dimension_keys_def)

lemma keys_initial: "map fst initial_profile = dimension_keys"
  by (simp add: initial_profile_def comp_def)

lemma keys_written: "map fst (ud_profile (written_data p)) = map fst (ud_profile p)"
  by (simp add: written_data_def comp_def)

lemma twelve_keysD:
  "twelve_keys st \<Longrightarrow> e \<in> set st \<Longrightarrow> map fst (ud_profile (profile_json (snd e))) = dimension_keys"
  unfolding twelve_keys_def by blast

lemma twelve_keys_create:
  assumes "twelve_keys st"
  shows "twelve_keys (fst (createUser st pos name userId now))"
  unfolding twelve_keys_def
proof
  fix e assume "e \<in> set (fst (createUser st pos name userId now))"
  from createUser_entries[OF this]
  consider "e \<in> set st"
    | "profile_json (snd e) = \<lparr>ud_id = userId, ud_name = sanitize name, ud_createdAt = now,
                     ud_profile = initial_profile, ud_sessions = [], ud_updatedAt = None\<rparr>"
    by auto
  then show "map fst (ud_profile (profile_json (snd e))) = dimension_keys"
  proof cases
    case 1
    then show ?thesis using assms by (rule twelve_keysD[rotated])
  next
    case 2
    then show ?thesis by (simp add: keys_initial)
  qed
qed

lemma twelve_keys_update:
  assumes "twelve_keys st" and "updateUserProfile st userId k v now = Inr (st', p)"
    and "k \<in> set dimension_keys"
  shows "twelve_keys st'"
proof -
  from assms(2) obtain dir ud where fd: "find_user_dir st userId = Some (dir, ud)"
    and p: "p = (profile_json ud)\<lparr>ud_profile := assign k v (ud_profile (profile_json ud)), ud_updatedAt := Some now\<rparr>"
    and st': "st' = overwrite dir (ud\<lparr>profile_json := written_data p\<rparr>) st"
    by (rule updateUserProfile_Inr)
  have m: "(dir, ud) \<in> set st" using fd by (rule find_user_dir_mem)
  have old: "map fst (ud_profile (profile_json ud)) = dimension_keys"
    using twelve_keysD[OF assms(1) m] by simp
  then have "k \<in> fst ` set (ud_profile (profile_json ud))"
    using assms(3) by (metis set_map)
  then have new: "map fst (ud_profile p) = dimension_keys"
    using old by (simp add: p map_fst_assign_mem)
  show ?thesis
    unfolding twelve_keys_def
  proof
    fix e assume "e \<in> set st'"
    then have "e \<in> set st \<or> e = (dir, ud\<lparr>profile_json := written_data p\<rparr>)"
      using set_overwrite[of dir "ud\<lparr>profile_json := written_data p\<rparr>" st] st' by blast
    then show "map fst (ud_profile (profile_json (snd e))) = dimension_keys"
    proof
      assume "e \<in> set st"
      then show ?thesis using assms(1) by (rule twelve_keysD[rotated])
    next
      assume "e = (dir, ud\<lparr>profile_json := written_data p\<rparr>)"
      then show ?thesis using new by (simp add: keys_written)
    qed
  qed
qed

lemma twelve_keys_save:
  assumes "twelve_keys st" and "saveConversation st pos userId sid c = Some (st', r)"
  shows "twelve_keys st'"
  unfolding twelve_keys_def
proof
  fix e' assume "e' \<in> set st'"
  with assms(2) obtain e where e: "e \<in> set st" and k: "kept e e'"
    using saveConversation_kept by blast
  then show "map fst (ud_profile (profile_json (snd e'))) = dimension_keys"
    using twelve_keysD[OF assms(1) e] by (simp add: kept_def)
qed

lemma route_unknown_agent:
  "agent \<notin> set agents \<Longrightarrow> routeToSpecializedAgent st userId agent assessmentData now = (st, True)"
  by (simp add: routeToSpecializedAgent_def)

lemma route_cases:
  "fst (routeToSpecializedAgent st userId agent assessmentData now) = st \<or>
   (agent \<in> set agents \<and>
    (\<exists>d p. assessmentData = Some d \<and> truthy (Some d) \<and>
       updateUserProfile st userId agent d now
         = Inr (fst (routeToSpecializedAgent st userId agent assessmentData now), p)))"
  by (auto simp: routeToSpecializedAgent_def split: option.splits sum.splits)

lemma twelve_keys_route:
  assumes "twelve_keys st"
  shows "twelve_keys (fst (routeToSpecializedAgent st userId agent assessmentData now))"
  using route_cases[of st userId agent assessmentData now] assms twelve_keys_update
  by (metis agents_eq)

lemma served_twelve_keys: "served st \<Longrightarrow> twelve_keys st"
proof (induction rule: served.induct)
  case s_empty
  then show ?case by (simp add: twelve_keys_def)
next
  case (s_create st userId pos name now)
  then show ?case by (simp add: twelve_keys_create)
next
  case (s_route st userId agent assessmentData now)
  then show ?case by (simp add: twelve_keys_route)
next
  case (s_save st pos userId sid conversation st' r)
  then show ?case using twelve_keys_save by blast
qed

lemma served_store_afrin: "served store_afrin"
  unfolding store_afrin_def using s_empty is_uuid_uid0 by (rule s_create)

lemma colour_not_key: "''favouriteColour'' \<notin> set dimension_keys"
  by (simp add: dimension_keys_def)

text \<open>A key outside the twelve is accepted by \<open>updateUserProfile\<close> and becomes a thirteenth
  key of the stored profile.\<close>

theorem unknown_key_is_stored:
  "''favouriteColour'' \<notin> set dimension_keys \<and>
   \<not> isl (updateUserProfile store_afrin uid0 ''favouriteColour'' (JStr ''blue'') t1) \<and>
   profile_keys store_afrin uid0 = dimension_keys \<and>
   profile_keys (after_update store_afrin uid0 ''favouriteColour'' (JStr ''blue'') t1) uid0
     = dimension_keys @ [''favouriteColour'']"
proof -
  have "fst ` set (ud_profile afrin_data) = set dimension_keys"
    using keys_initial by (simp add: afrin_data_def flip: set_map)
  then have k: "''favouriteColour'' \<notin> fst ` set (ud_profile afrin_data)"
    using colour_not_key by simp
  have "map fst (assign ''favouriteColour'' (JStr ''blue'') (ud_profile afrin_data))
          = dimension_keys @ [''favouriteColour'']"
    using map_fst_assign_new[OF _ k] by (simp add: afrin_data_def keys_initial)
  then have "profile_keys (after_update store_afrin uid0 ''favouriteColour'' (JStr ''blue'') t1) uid0
     = dimension_keys @ [''favouriteColour'']"
    using context_after_update[OF context_afrin, of "''favouriteColour''" "JStr ''blue''" t1]
    by (simp add: profile_keys_def keys_written)
  moreover have "profile_keys store_afrin uid0 = dimension_keys"
    by (simp add: profile_keys_def context_afrin afrin_data_def keys_initial)
  moreover have "\<not> isl (updateUserProfile store_afrin uid0 ''favouriteColour'' (JStr ''blue'') t1)"
    using update_found[OF find_afrin] by simp
  ultimately show ?thesis
    using colour_not_key by simp
qed

text \<open>
  C3, as the code has it. \<open>updateUserProfile\<close> checks no key: for a user id that
  resolves it succeeds with any key, and the key set of the stored profile grows by
  that key (it is unchanged when the key was there, and for the key \<open>__proto__\<close>). The check is made by the caller,
  \<open>routeToSpecializedAgent\<close>, which leaves the store untouched and answers with its error
  flag for a key that names none of the twelve agents. Hence every profile of a store
  built by \<open>createUser\<close>, \<open>routeToSpecializedAgent\<close> and \<open>saveConversation\<close> has exactly the
  twelve keys, in the order of creation.
\<close>

theorem keys_checked_by_router:
  assumes "getUserContext st userId = Inr p"
  shows "(\<exists>st'. updateUserProfile st userId k v now
            = Inr (st', p\<lparr>ud_profile := assign k v (ud_profile p), ud_updatedAt := Some now\<rparr>) \<and>
          getUserContext st' userId
            = Inr (written_data
                (p\<lparr>ud_profile := assign k v (ud_profile p), ud_updatedAt := Some now\<rparr>)) \<and>
          profile_keys st' userId = map fst (assign k v (ud_profile p))) \<and>
         fst ` set (assign k v (ud_profile p))
           = (if k = ''__proto__'' then fst ` set (ud_profile p)
              else insert k (fst ` set (ud_profile p))) \<and>
         (k \<notin> set dimension_keys \<longrightarrow>
            routeToSpecializedAgent st userId k assessmentData now = (st, True)) \<and>
         (served st \<longrightarrow> map fst (ud_profile p) = dimension_keys \<and>
            (\<forall>e\<in>set st. map fst (ud_profile (profile_json (snd e))) = dimension_keys) \<and>
            (\<forall>e\<in>set (fst (routeToSpecializedAgent st userId k assessmentData now)).
               map fst (ud_profile (profile_json (snd e))) = dimension_keys))"
proof -
  from assms obtain dir d where f: "find_user_dir st userId = Some (dir, d)" and p: "profile_json d = p"
    using getUserContext_Inr by blast
  let ?p' = "p\<lparr>ud_profile := assign k v (ud_profile p), ud_updatedAt := Some now\<rparr>"
  let ?st' = "overwrite dir (d\<lparr>profile_json := written_data ?p'\<rparr>) st"
  have u: "updateUserProfile st userId k v now = Inr (?st', ?p')"
    using update_found[OF f, of k v now] p by simp
  have "find_user_dir ?st' userId = Some (dir, d\<lparr>profile_json := written_data ?p'\<rparr>)"
    using f by (rule find_user_dir_overwrite)
  then have g: "getUserContext ?st' userId = Inr (written_data ?p')"
    by (simp add: getUserContext_found)
  have h: "profile_keys ?st' userId = map fst (assign k v (ud_profile p))"
    by (simp add: profile_keys_def g keys_written)
  have one: "\<exists>st'. updateUserProfile st userId k v now = Inr (st', ?p') \<and>
          getUserContext st' userId = Inr (written_data ?p') \<and>
          profile_keys st' userId = map fst (assign k v (ud_profile p))"
    using u g h by blast
  have two: "k \<notin> set dimension_keys \<longrightarrow>
            routeToSpecializedAgent st userId k assessmentData now = (st, True)"
    using route_unknown_agent[of k st userId assessmentData now] by (simp add: agents_eq)
  have m: "(dir, d) \<in> set st" using f by (rule find_user_dir_mem)
  have three: "map fst (ud_profile p) = dimension_keys \<and>
            (\<forall>e\<in>set st. map fst (ud_profile (profile_json (snd e))) = dimension_keys) \<and>
            (\<forall>e\<in>set (fst (routeToSpecializedAgent st userId k assessmentData now)).
               map fst (ud_profile (profile_json (snd e))) = dimension_keys)" if s: "served st"
  proof -
    have t: "twelve_keys st" using s by (rule served_twelve_keys)
    have t': "twelve_keys (fst (routeToSpecializedAgent st userId k assessmentData now))"
      using t by (rule twelve_keys_route)
    have "map fst (ud_profile p) = dimension_keys"
      using twelve_keysD[OF t m] p by simp
    then show ?thesis
      using t t' unfolding twelve_keys_def by blast
  qed
  show ?thesis
    using one two three keys_assign[of k v "ud_profile p"] by simp
qed

theorem keys_checked_by_router_witness:
  "getUserContext store_afrin uid0 = Inr afrin_data \<and>
   ''favouriteColour'' \<notin> set dimension_keys \<and> served store_afrin \<and>
   fst ` set (assign ''favouriteColour'' (JStr ''blue'') (ud_profile afrin_data))
     = insert ''favouriteColour'' (fst ` set (ud_profile afrin_data)) \<and>
   routeToSpecializedAgent store_afrin uid0 ''favouriteColour'' (Some (JStr ''blue'')) t1
     = (store_afrin, True) \<and>
   map fst (ud_profile afrin_data) = dimension_keys"
  using context_afrin colour_not_key served_store_afrin
    keys_checked_by_router[OF context_afrin, of "''favouriteColour''" "JStr ''blue''" t1
      "Some (JStr ''blue'')"]
  by simp

subsection \<open>The conversation log\<close>

lemma map_of_middle:
  "k \<notin> fst ` set as \<Longrightarrow>
   map_of (as @ (k, v) # bs) x = (if x = k then Some v else map_of (as @ bs) x)"
  by (induction as) auto

lemma map_of_insert_at:
  assumes "k \<notin> fst ` set xs"
  shows "map_of (insert_at pos (k, v) xs) x = (if x = k then Some v else map_of xs x)"
proof -
  have "k \<notin> fst ` set (take pos xs)"
    using assms set_take_subset[of pos xs] by auto
  then have "map_of (take pos xs @ (k, v) # drop pos xs) x
      = (if x = k then Some v else map_of (take pos xs @ drop pos xs) x)"
    by (rule map_of_middle)
  then show ?thesis
    by (simp only: insert_at_def append_take_drop_id)
qed

lemma map_of_write_entry:
  "map_of (write_entry pos k v xs) x = (if x = k then Some v else map_of xs x)"
  by (simp add: write_entry_def map_of_overwrite map_of_insert_at)

lemma overwrite_append:
  "k \<notin> fst ` set as \<Longrightarrow> overwrite k v (as @ bs) = as @ overwrite k v bs"
  by (induction as) auto

lemma keys_write_entry: "k \<in> fst ` set (write_entry pos k v xs)"
proof (cases "k \<in> fst ` set xs")
  case True
  then have "k \<in> set (map fst (overwrite k v xs))"
    by (simp add: map_fst_overwrite)
  then show ?thesis using True by (simp add: write_entry_def)
next
  case False
  then show ?thesis by (simp add: write_entry_def set_insert_at)
qed

lemma write_entry_twice:
  "write_entry pos2 k v (write_entry pos1 k w xs) = write_entry pos1 k v xs"
proof (cases "k \<in> fst ` set xs")
  case True
  then have "k \<in> fst ` set (overwrite k w xs)"
    by (simp flip: set_map add: map_fst_overwrite)
  then show ?thesis
    using True by (simp add: write_entry_def overwrite_overwrite)
next
  case False
  then have n: "k \<notin> fst ` set (take pos1 xs)"
    using set_take_subset[of pos1 xs] by auto
  have "overwrite k v (take pos1 xs @ (k, w) # drop pos1 xs) = take pos1 xs @ (k, v) # drop pos1 xs"
    by (simp add: overwrite_append[OF n])
  then show ?thesis
    using False keys_write_entry[of k pos1 w xs]
    by (simp add: write_entry_def insert_at_def)
qed

lemma stored_value_idem: "stored_value (stored_value v) = stored_value v"
  by (induction v) (auto simp: map_idI)

lemma written_turn_idem: "written_turn (written_turn t) = written_turn t"
  by (simp add: written_turn_def stored_value_idem)

text \<open>One call for a session id that names a file: the directory the user id resolves to
  receives the session file, and the next call finds what this one stored.\<close>

lemma save_step:
  assumes "find_user_dir st userId = Some (dir, d)" and "file_name (session_file sid)"
    and "d1 = d\<lparr>sessions_dir := Some (write_entry pos (session_file sid)
                   (map written_turn (file_turns d (session_file sid) @ [c])) (session_files d))\<rparr>"
  shows "saveConversation st pos userId sid c
           = Some (overwrite dir d1 st, Inr (file_turns d (session_file sid) @ [c]))"
    and "find_user_dir (overwrite dir d1 st) userId = Some (dir, d1)"
    and "file_turns d1 (session_file sid) = map written_turn (file_turns d (session_file sid) @ [c])"
    and "session_files d1 = write_entry pos (session_file sid)
                   (map written_turn (file_turns d (session_file sid) @ [c])) (session_files d)"
proof -
  show "saveConversation st pos userId sid c
           = Some (overwrite dir d1 st, Inr (file_turns d (session_file sid) @ [c]))"
    unfolding assms(3) using assms(2,1) by (rule save_found)
  show "find_user_dir (overwrite dir d1 st) userId = Some (dir, d1)"
    using assms(1) by (rule find_user_dir_overwrite)
  show s: "session_files d1 = write_entry pos (session_file sid)
                   (map written_turn (file_turns d (session_file sid) @ [c])) (session_files d)"
    by (simp add: assms(3) session_files_def)
  show "file_turns d1 (session_file sid) = map written_turn (file_turns d (session_file sid) @ [c])"
    unfolding file_turns_def s by (simp add: map_of_write_entry)
qed

text \<open>
  For a user id that resolves and a session id that names a file, three calls of
  \<open>saveConversation\<close> with the turns A, B and C succeed. Each returns the turns it read
  from the session file followed by the new turn, and the file then holds, in this
  order, what it held at the start (nothing, when it did not exist) followed by A, B
  and C, each as \<open>fs.writeJson\<close> stores it. The file keeps its place in the listing; the
  rest of the store is unchanged, and \<open>getUserData\<close> lists the session with these turns.
\<close>

lemma append_order_in_session_file:
  assumes "find_user_dir st userId = Some (dir, d)" and "file_name (session_file sid)"
  shows "\<exists>st1 st2 st3.
           saveConversation st pos1 userId sid A
             = Some (st1, Inr (file_turns d (session_file sid) @ [A])) \<and>
           saveConversation st1 pos2 userId sid B
             = Some (st2, Inr (map written_turn (file_turns d (session_file sid) @ [A]) @ [B])) \<and>
           saveConversation st2 pos3 userId sid C
             = Some (st3, Inr (map written_turn (file_turns d (session_file sid) @ [A, B]) @ [C])) \<and>
           st3 = overwrite dir
                   (d\<lparr>sessions_dir := Some (write_entry pos1 (session_file sid)
                        (map written_turn (file_turns d (session_file sid) @ [A, B, C]))
                        (session_files d))\<rparr>) st \<and>
           getUserData st3 userId
             = Inr \<lparr>gd_profile = profile_json d,
                    gd_sessions = map (\<lambda>(file, sessionData).
                                         \<lparr>s_sessionId = replace_first ''.json'' [] file,
                                          s_data = sessionData\<rparr>)
                       (write_entry pos1 (session_file sid)
                          (map written_turn (file_turns d (session_file sid) @ [A, B, C]))
                          (session_files d)),
                    gd_folderPath = dir\<rparr>"
proof -
  let ?f = "session_file sid"
  let ?old = "file_turns d ?f"
  define d1 where "d1 = d\<lparr>sessions_dir := Some (write_entry pos1 ?f
                   (map written_turn (?old @ [A])) (session_files d))\<rparr>"
  define d2 where "d2 = d1\<lparr>sessions_dir := Some (write_entry pos2 ?f
                   (map written_turn (file_turns d1 ?f @ [B])) (session_files d1))\<rparr>"
  define d3 where "d3 = d2\<lparr>sessions_dir := Some (write_entry pos3 ?f
                   (map written_turn (file_turns d2 ?f @ [C])) (session_files d2))\<rparr>"
  note s1 = save_step[OF assms d1_def]
  note s2 = save_step[OF s1(2) assms(2) d2_def]
  note s3 = save_step[OF s2(2) assms(2) d3_def]
  have t1: "file_turns d1 ?f = map written_turn (?old @ [A])" by (rule s1(3))
  have t2: "file_turns d2 ?f = map written_turn (?old @ [A, B])"
    unfolding s2(3) t1 by (simp add: written_turn_idem)
  have f3: "session_files d3
      = write_entry pos1 ?f (map written_turn (?old @ [A, B, C])) (session_files d)"
    unfolding s3(4) s2(4) s1(4) t2 by (simp add: write_entry_twice written_turn_idem comp_def)
  have p3: "profile_json d3 = profile_json d" and o3: "other_files d3 = other_files d"
    by (simp_all add: d3_def d2_def d1_def)
  have "sessions_dir d3 = Some (session_files d3)"
    by (simp add: d3_def session_files_def)
  then have d3: "d3 = d\<lparr>sessions_dir := Some (write_entry pos1 ?f
                   (map written_turn (?old @ [A, B, C])) (session_files d))\<rparr>"
    using p3 o3 unfolding f3 by (cases d; cases d3) simp
  have st3: "overwrite dir d3 (overwrite dir d2 (overwrite dir d1 st)) = overwrite dir d3 st"
    by (simp add: overwrite_overwrite)
  have g: "getUserData (overwrite dir d3 st) userId
             = Inr \<lparr>gd_profile = profile_json d,
                    gd_sessions = map (\<lambda>(file, sessionData).
                                         \<lparr>s_sessionId = replace_first ''.json'' [] file,
                                          s_data = sessionData\<rparr>)
                       (write_entry pos1 ?f (map written_turn (?old @ [A, B, C])) (session_files d)),
                    gd_folderPath = dir\<rparr>"
    using data_found[OF s3(2)] unfolding st3 f3 p3 .
  have a: "saveConversation st pos1 userId sid A = Some (overwrite dir d1 st, Inr (?old @ [A]))"
    by (rule s1(1))
  have b: "saveConversation (overwrite dir d1 st) pos2 userId sid B
      = Some (overwrite dir d2 (overwrite dir d1 st), Inr (map written_turn (?old @ [A]) @ [B]))"
    using s2(1) unfolding t1 .
  have c: "saveConversation (overwrite dir d2 (overwrite dir d1 st)) pos3 userId sid C
      = Some (overwrite dir d3 st, Inr (map written_turn (?old @ [A, B]) @ [C]))"
    using s3(1) unfolding t2 st3 .
  have e: "overwrite dir d3 st = overwrite dir
                   (d\<lparr>sessions_dir := Some (write_entry pos1 ?f
                        (map written_turn (?old @ [A, B, C])) (session_files d))\<rparr>) st"
    using d3 by simp
  show ?thesis
    by (intro exI conjI) (rule a b c e g)+
qed

lemma split_up_x: "split_path ''../x.json'' = [''..'', ''x.json'']"
  by simp

lemma split_a_b: "split_path ''a/b.json'' = [''a'', ''b.json'']"
  by simp

text \<open>
  C7, evaluated at the session id \<open>../x\<close>. \<open>path.join\<close> takes the file out of the \<open>sessions\<close>
  directory: the three calls with the turns A, B and C succeed and return A, then A, B,
  then A, B, C, which go to the file \<open>x.json\<close> beside \<open>profile.json\<close>. \<open>getUserData\<close> reads
  the \<open>sessions\<close> directory, which is empty, and lists no session. With the session id
  \<open>a/b\<close> the call fails, the directory \<open>sessions/a\<close> being absent.
\<close>

theorem session_id_leaves_sessions_dir:
  "saveConversation store_afrin 0 uid0 (Some ''../x'') turn_a
     = Some ([(''Afrin_'' @ uid0,
               \<lparr>profile_json = afrin_data, sessions_dir = Some [],
                other_files = [(''x.json'', [turn_a])]\<rparr>)],
             Inr [turn_a]) \<and>
   saveConversation
       [(''Afrin_'' @ uid0,
         \<lparr>profile_json = afrin_data, sessions_dir = Some [],
          other_files = [(''x.json'', [turn_a])]\<rparr>)] 0 uid0 (Some ''../x'') turn_b
     = Some ([(''Afrin_'' @ uid0,
               \<lparr>profile_json = afrin_data, sessions_dir = Some [],
                other_files = [(''x.json'', [turn_a, turn_b])]\<rparr>)],
             Inr [turn_a, turn_b]) \<and>
   saveConversation
       [(''Afrin_'' @ uid0,
         \<lparr>profile_json = afrin_data, sessions_dir = Some [],
          other_files = [(''x.json'', [turn_a, turn_b])]\<rparr>)] 0 uid0 (Some ''../x'') turn_c
     = Some ([(''Afrin_'' @ uid0,
               \<lparr>profile_json = afrin_data, sessions_dir = Some [],
                other_files = [(''x.json'', [turn_a, turn_b, turn_c])]\<rparr>)],
             Inr [turn_a, turn_b, turn_c]) \<and>
   getUserData
       [(''Afrin_'' @ uid0,
         \<lparr>profile_json = afrin_data, sessions_dir = Some [],
          other_files = [(''x.json'', [turn_a, turn_b, turn_c])]\<rparr>)] uid0
     = Inr \<lparr>gd_profile = afrin_data, gd_sessions = [], gd_folderPath = ''Afrin_'' @ uid0\<rparr> \<and>
   saveConversation store_afrin 0 uid0 (Some ''a/b'') turn_a
     = Some ([(''Afrin_'' @ uid0,
               \<lparr>profile_json = afrin_data, sessions_dir = Some [], other_files = []\<rparr>)],
             Inl (JsError ''Error''
                   (''Failed to save conversation: ENOENT: no such file or directory, open '' @
                    quoted_path [''Afrin_'' @ uid0, ''sessions'', ''a'', ''b.json''])))"
proof -
  let ?dir = "''Afrin_'' @ uid0"
  have inc: "str_includes ?dir uid0" by (rule str_includes_suffix)
  have f: "find_user_dir [(?dir, d)] uid0 = Some (?dir, d)" for d
    using inc by (simp add: find_user_dir_def)
  have w: "written_turn turn_a = turn_a" "written_turn turn_b = turn_b" "written_turn turn_c = turn_c"
    by (simp_all add: written_turn_def turn_a_def turn_b_def turn_c_def)
  have one: "saveConversation store_afrin 0 uid0 (Some ''../x'') turn_a
     = Some ([(?dir, \<lparr>profile_json = afrin_data, sessions_dir = Some [],
                other_files = [(''x.json'', [turn_a])]\<rparr>)], Inr [turn_a])"
    unfolding store_afrin_eq saveConversation_def f
    by (simp add: split_up_x save_at_def entry_kind_def w write_entry_def insert_at_def)
  have two: "saveConversation
       [(?dir, \<lparr>profile_json = afrin_data, sessions_dir = Some [],
          other_files = [(''x.json'', [turn_a])]\<rparr>)] 0 uid0 (Some ''../x'') turn_b
     = Some ([(?dir, \<lparr>profile_json = afrin_data, sessions_dir = Some [],
                other_files = [(''x.json'', [turn_a, turn_b])]\<rparr>)], Inr [turn_a, turn_b])"
    unfolding saveConversation_def f
    by (simp add: split_up_x save_at_def entry_kind_def w write_entry_def insert_at_def)
  have three: "saveConversation
       [(?dir, \<lparr>profile_json = afrin_data, sessions_dir = Some [],
          other_files = [(''x.json'', [turn_a, turn_b])]\<rparr>)] 0 uid0 (Some ''../x'') turn_c
     = Some ([(?dir, \<lparr>profile_json = afrin_data, sessions_dir = Some [],
                other_files = [(''x.json'', [turn_a, turn_b, turn_c])]\<rparr>)],
             Inr [turn_a, turn_b, turn_c])"
    unfolding saveConversation_def f
    by (simp add: split_up_x save_at_def entry_kind_def w write_entry_def insert_at_def)
  have four: "getUserData
       [(?dir, \<lparr>profile_json = afrin_data, sessions_dir = Some [],
          other_files = [(''x.json'', [turn_a, turn_b, turn_c])]\<rparr>)] uid0
     = Inr \<lparr>gd_profile = afrin_data, gd_sessions = [], gd_folderPath = ?dir\<rparr>"
    unfolding getUserData_def f by (simp add: Error_def)
  have five: "saveConversation store_afrin 0 uid0 (Some ''a/b'') turn_a
     = Some ([(?dir, \<lparr>profile_json = afrin_data, sessions_dir = Some [], other_files = []\<rparr>)],
             Inl (JsError ''Error''
                   (''Failed to save conversation: ENOENT: no such file or directory, open '' @
                    quoted_path [?dir, ''sessions'', ''a'', ''b.json''])))"
    unfolding store_afrin_eq saveConversation_def f
    by (simp add: split_a_b save_at_def entry_kind_def Error_def)
  show ?thesis
    by (intro conjI) (rule one two three four five)+
qed

subsection \<open>The summary of a reachable store\<close>











subsection \<open>The next options\<close>






subsection \<open>Overwriting a dimension\<close>

lemma slot_found: "getUserContext st userId = Inr p \<Longrightarrow> slot st userId k = map_of (ud_profile p) k"
  by (simp add: slot_def)

text \<open>
  C2, as the code has it. \<open>updateUserProfile\<close> assigns unconditionally: for a user id that
  resolves and a key other than \<open>__proto__\<close>, the call succeeds and returns the record with
  the new value in the slot, whatever the slot held before (also when the new value is
  \<open>null\<close>) and with every other slot as it was; \<open>updatedAt\<close> is refreshed. The file
  receives this record as \<open>fs.writeJson\<close> stores it, and that is what a later
  \<open>getUserContext\<close> returns: the slot written holds the stored form of the new value
  (the value itself, unless it holds a number that is not finite). No directory is added
  or renamed.
\<close>

theorem update_overwrites:
  assumes "getUserContext st userId = Inr p" and "k \<noteq> ''__proto__''"
  shows "(\<exists>st'. updateUserProfile st userId k v now
            = Inr (st', p\<lparr>ud_profile := assign k v (ud_profile p), ud_updatedAt := Some now\<rparr>) \<and>
          getUserContext st' userId
            = Inr (written_data
                (p\<lparr>ud_profile := assign k v (ud_profile p), ud_updatedAt := Some now\<rparr>)) \<and>
          map fst st' = map fst st \<and>
          slot st' userId k = Some (stored_value v) \<and>
          (\<forall>k'. k' \<noteq> k \<longrightarrow> slot st' userId k' = map_option stored_value (slot st userId k'))) \<and>
         map_of (assign k v (ud_profile p)) k = Some v \<and>
         (\<forall>k'. k' \<noteq> k \<longrightarrow> map_of (assign k v (ud_profile p)) k' = map_of (ud_profile p) k')"
proof -
  from assms(1) obtain dir d where f: "find_user_dir st userId = Some (dir, d)" and p: "profile_json d = p"
    using getUserContext_Inr by blast
  let ?p' = "p\<lparr>ud_profile := assign k v (ud_profile p), ud_updatedAt := Some now\<rparr>"
  let ?st' = "overwrite dir (d\<lparr>profile_json := written_data ?p'\<rparr>) st"
  have u: "updateUserProfile st userId k v now = Inr (?st', ?p')"
    using update_found[OF f, of k v now] p by simp
  have "find_user_dir ?st' userId = Some (dir, d\<lparr>profile_json := written_data ?p'\<rparr>)"
    using f by (rule find_user_dir_overwrite)
  then have g: "getUserContext ?st' userId = Inr (written_data ?p')"
    by (simp add: getUserContext_found)
  have n: "map fst ?st' = map fst st"
    by (rule map_fst_overwrite)
  have s: "slot ?st' userId k = Some (stored_value v)"
    using assms(2) by (simp add: slot_found[OF g] slots_written map_of_assign)
  have o: "\<forall>k'. k' \<noteq> k \<longrightarrow> slot ?st' userId k' = map_option stored_value (slot st userId k')"
    using assms(2) by (simp add: slot_found[OF g] slot_found[OF assms(1)] slots_written map_of_assign)
  have one: "\<exists>st'. updateUserProfile st userId k v now = Inr (st', ?p') \<and>
          getUserContext st' userId = Inr (written_data ?p') \<and> map fst st' = map fst st \<and>
          slot st' userId k = Some (stored_value v) \<and>
          (\<forall>k'. k' \<noteq> k \<longrightarrow> slot st' userId k' = map_option stored_value (slot st userId k'))"
    using u g n s o by blast
  show ?thesis
    using one assms(2) by (simp add: map_of_assign)
qed

lemma after_update_Inr:
  "updateUserProfile st userId k v now = Inr (st', p) \<Longrightarrow> after_update st userId k v now = st'"
  by (simp add: after_update_def)

lemma context_first:
  "getUserContext (after_update store_afrin uid0 ''personality'' (JStr ''first'') t1) uid0
     = Inr (written_data
         (afrin_data\<lparr>ud_profile := assign ''personality'' (JStr ''first'') (ud_profile afrin_data),
                     ud_updatedAt := Some t1\<rparr>))"
  using context_afrin by (rule context_after_update)

lemma slots_first:
  "slot (after_update store_afrin uid0 ''personality'' (JStr ''first'') t1) uid0 ''personality''
     = Some (JStr ''first'')"
  "slot (after_update store_afrin uid0 ''personality'' (JStr ''first'') t1) uid0 ''skills''
     = Some JNull"
  by (simp_all add: slot_found[OF context_first] slots_written map_of_assign afrin_data_def
      initial_profile_def dimension_keys_def)

theorem update_overwrites_witness:
  "slot (after_update store_afrin uid0 ''personality'' (JStr ''first'') t1) uid0 ''personality''
     = Some (JStr ''first'') \<and>
   ''personality'' \<noteq> ''__proto__'' \<and>
   \<not> isl (updateUserProfile (after_update store_afrin uid0 ''personality'' (JStr ''first'') t1)
            uid0 ''personality'' (JStr ''second'') t2) \<and>
   map fst (after_update (after_update store_afrin uid0 ''personality'' (JStr ''first'') t1)
              uid0 ''personality'' (JStr ''second'') t2) = [''Afrin_'' @ uid0] \<and>
   slot (after_update (after_update store_afrin uid0 ''personality'' (JStr ''first'') t1)
           uid0 ''personality'' (JStr ''second'') t2) uid0 ''personality''
     = Some (JStr ''second'') \<and>
   slot (after_update (after_update store_afrin uid0 ''personality'' (JStr ''first'') t1)
           uid0 ''personality'' (JStr ''second'') t2) uid0 ''skills''
     = Some JNull \<and>
   slot (after_update (after_update store_afrin uid0 ''personality'' (JStr ''first'') t1)
           uid0 ''personality'' JInfinity t2) uid0 ''personality''
     = Some JNull \<and>
   slot (after_update (after_update store_afrin uid0 ''personality'' (JStr ''first'') t1)
           uid0 ''personality'' JInfinity t2) uid0 ''skills''
     = Some JNull"
proof -
  let ?st1 = "after_update store_afrin uid0 ''personality'' (JStr ''first'') t1"
  let ?p1 = "written_data
         (afrin_data\<lparr>ud_profile := assign ''personality'' (JStr ''first'') (ud_profile afrin_data),
                     ud_updatedAt := Some t1\<rparr>)"
  have n: "''personality'' \<noteq> ''__proto__''" by simp
  have s: "''skills'' \<noteq> ''personality''" by simp
  have names: "map fst ?st1 = [''Afrin_'' @ uid0]"
    using update_found[OF find_afrin, of "''personality''" "JStr ''first''" t1]
    by (simp add: after_update_def map_fst_overwrite store_afrin_eq)
  from update_overwrites[OF context_first n, of "JStr ''second''" t2]
  obtain st2 where u2: "updateUserProfile ?st1 uid0 ''personality'' (JStr ''second'') t2
        = Inr (st2, ?p1\<lparr>ud_profile := assign ''personality'' (JStr ''second'') (ud_profile ?p1),
                         ud_updatedAt := Some t2\<rparr>)"
    and m2: "map fst st2 = map fst ?st1"
    and a2: "slot st2 uid0 ''personality'' = Some (stored_value (JStr ''second''))"
    and o2: "\<forall>k'. k' \<noteq> ''personality'' \<longrightarrow>
               slot st2 uid0 k' = map_option stored_value (slot ?st1 uid0 k')"
    by blast
  from update_overwrites[OF context_first n, of JInfinity t2]
  obtain st3 where u3: "updateUserProfile ?st1 uid0 ''personality'' JInfinity t2
        = Inr (st3, ?p1\<lparr>ud_profile := assign ''personality'' JInfinity (ud_profile ?p1),
                         ud_updatedAt := Some t2\<rparr>)"
    and a3: "slot st3 uid0 ''personality'' = Some (stored_value JInfinity)"
    and o3: "\<forall>k'. k' \<noteq> ''personality'' \<longrightarrow>
               slot st3 uid0 k' = map_option stored_value (slot ?st1 uid0 k')"
    by blast
  have e2: "after_update ?st1 uid0 ''personality'' (JStr ''second'') t2 = st2"
    using u2 by (rule after_update_Inr)
  have e3: "after_update ?st1 uid0 ''personality'' JInfinity t2 = st3"
    using u3 by (rule after_update_Inr)
  have i2: "\<not> isl (updateUserProfile ?st1 uid0 ''personality'' (JStr ''second'') t2)"
    by (simp add: u2)
  have m: "map fst st2 = [''Afrin_'' @ uid0]"
    using m2 names by simp
  have p2: "slot st2 uid0 ''personality'' = Some (JStr ''second'')"
    using a2 by simp
  have k2: "slot st2 uid0 ''skills'' = Some JNull"
    using o2[rule_format, OF s] by (simp add: slots_first(2))
  have p3: "slot st3 uid0 ''personality'' = Some JNull"
    using a3 by simp
  have k3: "slot st3 uid0 ''skills'' = Some JNull"
    using o3[rule_format, OF s] by (simp add: slots_first(2))
  show ?thesis
    unfolding e2 e3 by (intro conjI) (rule slots_first(1) n i2 m p2 k2 p3 k3)+
qed

end
